theory Spec2Isabelle
  imports Main
begin

section \<open>Strings of the quick-add parser\<close>

text \<open>
  A JavaScript string is a sequence of UTF-16 code units. The model takes the code units
  below 256 (Latin-1), one \<open>char\<close> each, so that \<open>CHR 0xFC\<close> is the letter u-umlaut of
  the keyword in \<open>parseQuickText\<close>. The character tests below are the ones of ECMAScript
  restricted to that range: \<open>\d\<close>, \<open>\s\<close> (white space and line terminators), the word
  characters of \<open>\b\<close> (without the \<open>u\<close> flag: ASCII letters, digits and the underscore),
  \<open>toLowerCase\<close>, and the canonicalisation that the \<open>i\<close> flag compares under.
\<close>

definition code :: "char \<Rightarrow> nat" where
  "code c = of_char c"

definition isDigit :: "char \<Rightarrow> bool" where
  "isDigit c \<longleftrightarrow> 48 \<le> code c \<and> code c \<le> 57"

definition isSpace :: "char \<Rightarrow> bool" where
  "isSpace c \<longleftrightarrow> code c \<in> {9, 10, 11, 12, 13, 32, 160}"

definition isWordChar :: "char \<Rightarrow> bool" where
  "isWordChar c \<longleftrightarrow>
     (97 \<le> code c \<and> code c \<le> 122) \<or> (65 \<le> code c \<and> code c \<le> 90) \<or> isDigit c \<or> code c = 95"

definition lowerChar :: "char \<Rightarrow> char" where
  "lowerChar c =
     (if (65 \<le> code c \<and> code c \<le> 90) \<or> (192 \<le> code c \<and> code c \<le> 222 \<and> code c \<noteq> 215)
      then char_of (code c + 32) else c)"

definition toLowerCase :: "string \<Rightarrow> string" where
  "toLowerCase s = map lowerChar s"

text \<open>
  Canonicalize of a pattern without the \<open>u\<close> flag: the upper-case form when that is one
  code unit, except that a non-ASCII character is never mapped to an ASCII one. The result
  can leave Latin-1 (y-diaeresis, micro sign), so it is a code-unit number.
\<close>

definition canonicalize :: "char \<Rightarrow> nat" where
  "canonicalize c =
     (if (97 \<le> code c \<and> code c \<le> 122) \<or> (224 \<le> code c \<and> code c \<le> 254 \<and> code c \<noteq> 247)
      then code c - 32
      else if code c = 255 then 376
      else if code c = 181 then 924
      else code c)"

definition trim :: "string \<Rightarrow> string" where
  "trim s = rev (dropWhile isSpace (rev (dropWhile isSpace s)))"

text \<open>
  \<open>parseInt(s, 10)\<close>: leading white space is skipped, a sign is read, the longest run of
  decimal digits is the value; with no digit the result is \<open>NaN\<close>, here \<open>None\<close>.
\<close>

definition digitsValue :: "string \<Rightarrow> int" where
  "digitsValue ds = foldl (\<lambda>a c. 10 * a + (int (code c) - 48)) 0 ds"

definition parseInt :: "string \<Rightarrow> int option" where
  "parseInt s =
     (let s1 = dropWhile isSpace s;
          sign = (case s1 of c # _ \<Rightarrow> (if c = CHR ''-'' then - 1 else 1) | [] \<Rightarrow> (1::int));
          s2 = (case s1 of c # r \<Rightarrow> (if c = CHR ''-'' \<or> c = CHR ''+'' then r else s1) | [] \<Rightarrow> s1);
          ds = takeWhile isDigit s2
      in if ds = [] then None else Some (sign * digitsValue ds))"

text \<open>
  \<open>clampInt(n, a, b)\<close>: \<open>a\<close> when \<open>n\<close> is not finite, else \<open>max(a, min(b, n))\<close>.
\<close>

definition clampInt :: "int option \<Rightarrow> int \<Rightarrow> int \<Rightarrow> int" where
  "clampInt n a b = (case n of None \<Rightarrow> a | Some v \<Rightarrow> max a (min b v))"

section \<open>Regular expressions\<close>

text \<open>
  The patterns of \<open>parseQuickText\<close> use single characters and classes, greedy bounded or
  unbounded repetition of a class, sequence, alternation, an optional group, capture
  groups, \<open>^\<close>, \<open>$\<close> and \<open>\b\<close>. The matcher returns every way a pattern can match at a
  position, in the order in which a backtracking matcher tries them (the longer
  repetition first, the left alternative first); the head of the list is the match
  JavaScript reports.
\<close>

datatype cclass = Digit | Space | Lit char | LitI char | OneOf "char list"

fun cmatch :: "cclass \<Rightarrow> char \<Rightarrow> bool" where
  "cmatch Digit c = isDigit c"
| "cmatch Space c = isSpace c"
| "cmatch (Lit p) c = (c = p)"
| "cmatch (LitI p) c = (canonicalize c = canonicalize p)"
| "cmatch (OneOf ps) c = (c \<in> set ps)"

datatype rx =
    Eps
  | Atom cclass
  | Rep cclass nat "nat option"
  | Seq rx rx
  | Alt rx rx
  | Opt rx
  | Group nat rx
  | WordB
  | Bol
  | Eol

type_synonym caps = "(nat \<times> string) list"

definition run :: "cclass \<Rightarrow> string \<Rightarrow> nat \<Rightarrow> nat" where
  "run c s i = length (takeWhile (cmatch c) (drop i s))"

definition wordAt :: "string \<Rightarrow> nat \<Rightarrow> bool" where
  "wordAt s i \<longleftrightarrow> i < length s \<and> isWordChar (s ! i)"

definition boundary :: "string \<Rightarrow> nat \<Rightarrow> bool" where
  "boundary s i \<longleftrightarrow> ((0 < i \<and> wordAt s (i - 1)) \<noteq> wordAt s i)"

fun ms :: "rx \<Rightarrow> string \<Rightarrow> nat \<times> caps \<Rightarrow> (nat \<times> caps) list" where
  "ms Eps s st = [st]"
| "ms (Atom c) s (i, cs) = (if i < length s \<and> cmatch c (s ! i) then [(Suc i, cs)] else [])"
| "ms (Rep c lo hi) s (i, cs) =
     (let n = (case hi of None \<Rightarrow> run c s i | Some h \<Rightarrow> min h (run c s i))
      in map (\<lambda>k. (i + k, cs)) (rev [lo..<Suc n]))"
| "ms (Seq a b) s st = concat (map (ms b s) (ms a s st))"
| "ms (Alt a b) s st = ms a s st @ ms b s st"
| "ms (Opt a) s st = ms a s st @ [st]"
| "ms (Group g a) s (i, cs) =
     map (\<lambda>(j, cs'). (j, (g, take (j - i) (drop i s)) # cs')) (ms a s (i, cs))"
| "ms WordB s (i, cs) = (if boundary s i then [(i, cs)] else [])"
| "ms Bol s (i, cs) = (if i = 0 then [(i, cs)] else [])"
| "ms Eol s (i, cs) = (if i = length s then [(i, cs)] else [])"

text \<open>
  A match: where it starts, where it ends, and the capture groups. \<open>execFrom\<close> is the loop
  of RegExpBuiltinExec: the first start position, from \<open>lastIndex\<close> on, at which the
  pattern matches.
\<close>

record rmatch =
  index :: nat
  stop :: nat
  groups :: caps

fun firstMatch :: "rx \<Rightarrow> string \<Rightarrow> nat list \<Rightarrow> rmatch option" where
  "firstMatch r s [] = None"
| "firstMatch r s (i # is) =
     (case ms r s (i, []) of
        [] \<Rightarrow> firstMatch r s is
      | (j, cs) # _ \<Rightarrow> Some \<lparr>index = i, stop = j, groups = cs\<rparr>)"

definition execFrom :: "rx \<Rightarrow> string \<Rightarrow> nat \<Rightarrow> rmatch option" where
  "execFrom r s lastIndex = firstMatch r s [lastIndex..<Suc (length s)]"

definition match :: "rx \<Rightarrow> string \<Rightarrow> rmatch option" where
  "match r s = execFrom r s 0"

definition test :: "rx \<Rightarrow> string \<Rightarrow> bool" where
  "test r s \<longleftrightarrow> match r s \<noteq> None"

definition grp :: "rmatch \<Rightarrow> nat \<Rightarrow> string option" where
  "grp m g = map_of (groups m) g"

fun seqs :: "rx list \<Rightarrow> rx" where
  "seqs [] = Eps"
| "seqs [r] = r"
| "seqs (r # rs) = Seq r (seqs rs)"

definition lit_i :: "string \<Rightarrow> rx" where
  "lit_i w = seqs (map (\<lambda>c. Atom (LitI c)) w)"

text \<open>
  Every match of the patterns ends at or after its start, inside the string.
\<close>

lemma ms_bounds:
  "(j, cs') \<in> set (ms r s (i, cs)) \<Longrightarrow> i \<le> j"
proof (induction r arbitrary: i cs j cs')
  case (Seq a b)
  then obtain k ck where k: "(k, ck) \<in> set (ms a s (i, cs))" "(j, cs') \<in> set (ms b s (k, ck))"
    by auto
  from Seq.IH(1)[OF k(1)] Seq.IH(2)[OF k(2)] show ?case by simp
next
  case (Alt a b)
  then show ?case by auto
next
  case (Opt a)
  then show ?case by auto
next
  case (Group g a)
  then show ?case by auto
next
  case (Rep c lo hi)
  then show ?case by (auto simp: Let_def simp del: upt_Suc)
qed (auto split: if_splits)

lemma firstMatch_bounds:
  "firstMatch r s is = Some m \<Longrightarrow> index m \<in> set is \<and> index m \<le> stop m"
proof (induction "is")
  case Nil
  then show ?case by simp
next
  case (Cons i "is")
  show ?case
  proof (cases "ms r s (i, [])")
    case Nil
    with Cons show ?thesis by simp
  next
    case (Cons st rest)
    obtain j cs where st: "st = (j, cs)" by (cases st)
    have "(j, cs) \<in> set (ms r s (i, []))" using Cons st by simp
    then have "i \<le> j" by (rule ms_bounds)
    with Cons.prems Cons st show ?thesis by auto
  qed
qed

lemma execFrom_bounds:
  assumes "execFrom r s k = Some m"
  shows "k \<le> index m" and "index m \<le> length s" and "index m \<le> stop m"
  using firstMatch_bounds[OF assms[unfolded execFrom_def]] by auto

text \<open>
  \<open>String.prototype.replace\<close> with a global pattern: every match from left to right, the
  next search starting where the last match ended (one further after an empty match);
  the text between the matches is kept. Without the \<open>g\<close> flag only the first match is
  replaced.
\<close>

function replaceAllFrom :: "rx \<Rightarrow> string \<Rightarrow> string \<Rightarrow> nat \<Rightarrow> nat \<Rightarrow> string" where
  "replaceAllFrom r rep s lastIndex nextPos =
     (case execFrom r s lastIndex of
        None \<Rightarrow> drop nextPos s
      | Some m \<Rightarrow>
          take (index m - nextPos) (drop nextPos s) @ rep @
          replaceAllFrom r rep s (if stop m = index m then Suc (index m) else stop m) (stop m))"
  by pat_completeness auto
termination
proof (relation "measure (\<lambda>(r, rep, s, lastIndex, nextPos). Suc (length s) - lastIndex)")
  show "wf (measure (\<lambda>(r, rep, s, lastIndex, nextPos). Suc (length s) - lastIndex))"
    by simp
next
  fix r :: rx and rep s :: string and lastIndex nextPos :: nat and m :: rmatch
  assume "execFrom r s lastIndex = Some m"
  from execFrom_bounds[OF this]
  show "((r, rep, s, if stop m = index m then Suc (index m) else stop m, stop m),
         (r, rep, s, lastIndex, nextPos))
        \<in> measure (\<lambda>(r, rep, s, lastIndex, nextPos). Suc (length s) - lastIndex)"
    by auto
qed

definition replaceAll :: "rx \<Rightarrow> string \<Rightarrow> string \<Rightarrow> string" where
  "replaceAll r rep s = replaceAllFrom r rep s 0 0"

definition replaceFirst :: "rx \<Rightarrow> string \<Rightarrow> string \<Rightarrow> string" where
  "replaceFirst r rep s =
     (case match r s of
        None \<Rightarrow> s
      | Some m \<Rightarrow> take (index m) s @ rep @ drop (stop m) s)"

section \<open>The patterns of parseQuickText\<close>

definition uebermorgen :: string where
  "uebermorgen = CHR 0xFC # ''bermorgen''"

text \<open>\<^verbatim>\<open>/(\d{1,3})\s*min\b/i\<close> and \<^verbatim>\<open>/(\d{1,2})\s*h\b/i\<close>\<close>

definition rx_durMin :: rx where
  "rx_durMin = seqs [Group 1 (Rep Digit 1 (Some 3)), Rep Space 0 None, lit_i ''min'', WordB]"

definition rx_durH :: rx where
  "rx_durH = seqs [Group 1 (Rep Digit 1 (Some 2)), Rep Space 0 None, lit_i ''h'', WordB]"

text \<open>\<^verbatim>\<open>/\b\u00fcbermorgen\b/i\<close>, \<^verbatim>\<open>/\bmorgen\b/i\<close>, \<^verbatim>\<open>/\bheute\b/i\<close>\<close>

definition rx_uebermorgen :: rx where
  "rx_uebermorgen = seqs [WordB, lit_i uebermorgen, WordB]"

definition rx_morgen :: rx where
  "rx_morgen = seqs [WordB, lit_i ''morgen'', WordB]"

definition rx_heute :: rx where
  "rx_heute = seqs [WordB, lit_i ''heute'', WordB]"

text \<open>\<^verbatim>\<open>/\b(\d{1,2})\.(\d{1,2})(?:\.(\d{2,4}))?\b/\<close>\<close>

definition rx_dm :: rx where
  "rx_dm = seqs [WordB, Group 1 (Rep Digit 1 (Some 2)), Atom (Lit CHR ''.''),
                 Group 2 (Rep Digit 1 (Some 2)),
                 Opt (Seq (Atom (Lit CHR ''.'')) (Group 3 (Rep Digit 2 (Some 4)))), WordB]"

text \<open>\<^verbatim>\<open>/\b(\d{1,2})[:.](\d{2})\b/\<close>\<close>

definition rx_time :: rx where
  "rx_time = seqs [WordB, Group 1 (Rep Digit 1 (Some 2)), Atom (OneOf '':.''),
                   Group 2 (Rep Digit 2 (Some 2)), WordB]"

text \<open>\<^verbatim>\<open>/(?:^|\s)(\d{1,2})(?:\s|$)/\<close>\<close>

definition rx_hourOnly :: rx where
  "rx_hourOnly = seqs [Alt Bol (Atom Space), Group 1 (Rep Digit 1 (Some 2)), Alt (Atom Space) Eol]"

text \<open>
  The patterns removed from the title, in the order of the source:
  \<^verbatim>\<open>/\b(heute|morgen|\u00fcbermorgen)\b/gi\<close>,
  \<^verbatim>\<open>/\b\d{1,2}\.\d{1,2}(?:\.\d{2,4})?\b/g\<close>,
  \<^verbatim>\<open>/\b\d{1,2}[:.]\d{2}\b/g\<close>,
  \<^verbatim>\<open>/\b\d{1,3}\s*min\b/gi\<close>,
  \<^verbatim>\<open>/\b\d{1,2}\s*h\b/gi\<close>,
  \<^verbatim>\<open>/(?:^|\s)\d{1,2}(?:\s|$)/\<close> and \<^verbatim>\<open>/\s+/g\<close>.
\<close>

definition rx_titleDay :: rx where
  "rx_titleDay =
     seqs [WordB, Group 1 (Alt (lit_i ''heute'') (Alt (lit_i ''morgen'') (lit_i uebermorgen))), WordB]"

definition rx_titleDate :: rx where
  "rx_titleDate = seqs [WordB, Rep Digit 1 (Some 2), Atom (Lit CHR ''.''), Rep Digit 1 (Some 2),
                        Opt (Seq (Atom (Lit CHR ''.'')) (Rep Digit 2 (Some 4))), WordB]"

definition rx_titleTime :: rx where
  "rx_titleTime = seqs [WordB, Rep Digit 1 (Some 2), Atom (OneOf '':.''), Rep Digit 2 (Some 2), WordB]"

definition rx_titleMin :: rx where
  "rx_titleMin = seqs [WordB, Rep Digit 1 (Some 3), Rep Space 0 None, lit_i ''min'', WordB]"

definition rx_titleH :: rx where
  "rx_titleH = seqs [WordB, Rep Digit 1 (Some 2), Rep Space 0 None, lit_i ''h'', WordB]"

definition rx_titleHourOnly :: rx where
  "rx_titleHourOnly = seqs [Alt Bol (Atom Space), Rep Digit 1 (Some 2), Alt (Atom Space) Eol]"

definition rx_spaces :: rx where
  "rx_spaces = Rep Space 1 None"

section \<open>Date objects\<close>

text \<open>
  A \<open>Date\<close> holds a time value: the milliseconds since the epoch in UTC, at most
  \<open>8.64e15\<close> in absolute value, or \<open>NaN\<close> (an invalid date), here \<open>None\<close>. The functions
  are the abstract operations of ECMAScript on integral arguments. Local time is UTC plus
  a fixed offset \<open>tza\<close>: the model has no daylight-saving transitions. The environment
  gives the reading of the process clock that \<open>new Date()\<close> returns.
\<close>

record env =
  clock :: int
  tza :: int

type_synonym date = "int option"

definition msPerDay :: int where "msPerDay = 86400000"
definition msPerHour :: int where "msPerHour = 3600000"
definition msPerMinute :: int where "msPerMinute = 60000"
definition msPerSecond :: int where "msPerSecond = 1000"
definition maxTime :: int where "maxTime = 8640000000000000"

definition Day :: "int \<Rightarrow> int" where
  "Day t = t div msPerDay"

definition TimeWithinDay :: "int \<Rightarrow> int" where
  "TimeWithinDay t = t mod msPerDay"

definition DaysInYear :: "int \<Rightarrow> int" where
  "DaysInYear y =
     (if y mod 4 \<noteq> 0 then 365 else if y mod 100 \<noteq> 0 then 366
      else if y mod 400 \<noteq> 0 then 365 else 366)"

definition DayFromYear :: "int \<Rightarrow> int" where
  "DayFromYear y =
     365 * (y - 1970) + (y - 1969) div 4 - (y - 1901) div 100 + (y - 1601) div 400"

lemma div_mod_unique:
  "0 < (k::int) \<Longrightarrow> 0 \<le> r \<Longrightarrow> r < k \<Longrightarrow> (k * q + r) div k = q \<and> (k * q + r) mod k = r"
  by (simp add: div_pos_pos_trivial)

lemma div_step:
  assumes k: "0 < (k::int)"
  shows "(a + 1) div k = a div k + (if (a + 1) mod k = 0 then 1 else 0)"
proof -
  define q where "q = a div k"
  define r where "r = a mod k"
  have a: "a = k * q + r" by (simp add: q_def r_def)
  have r: "0 \<le> r" "r < k" using k by (auto simp: r_def)
  show ?thesis
  proof (cases "r + 1 = k")
    case True
    have e: "a + 1 = k * (q + 1) + 0"
      using a True by (simp add: distrib_left)
    have "(k * (q + 1) + 0) div k = q + 1 \<and> (k * (q + 1) + 0) mod k = 0"
      using k by (intro div_mod_unique) auto
    then have "(a + 1) div k = q + 1" "(a + 1) mod k = 0" by (simp_all only: e)
    then show ?thesis by (simp add: q_def)
  next
    case False
    then have lt: "r + 1 < k" using r by simp
    have e: "a + 1 = k * q + (r + 1)" using a by simp
    have "(k * q + (r + 1)) div k = q \<and> (k * q + (r + 1)) mod k = r + 1"
      using k lt r by (intro div_mod_unique) auto
    then have "(a + 1) div k = q" "(a + 1) mod k = r + 1" by (simp_all only: e)
    then show ?thesis using r by (simp add: q_def)
  qed
qed

lemma mod_shift: "(b::int) mod k = 0 \<Longrightarrow> (y - b) mod k = y mod k"
  by (metis mod_diff_eq diff_zero mod_mod_trivial)

lemma mod_100_4: "(y::int) mod 100 = 0 \<Longrightarrow> y mod 4 = 0"
  using dvd_trans[of 4 100 y] by (simp add: mod_eq_0_iff_dvd)

lemma mod_400_100: "(y::int) mod 400 = 0 \<Longrightarrow> y mod 100 = 0"
  using dvd_trans[of 100 400 y] by (simp add: mod_eq_0_iff_dvd)

lemma DayFromYear_Suc: "DayFromYear (y + 1) = DayFromYear y + DaysInYear y"
proof -
  have a: "(y + 1 - 1969) div 4 = (y - 1969) div 4 + (if y mod 4 = 0 then 1 else 0)"
    using div_step[of 4 "y - 1969"] mod_shift[of 1968 4 y] by (simp add: algebra_simps)
  have b: "(y + 1 - 1901) div 100 = (y - 1901) div 100 + (if y mod 100 = 0 then 1 else 0)"
    using div_step[of 100 "y - 1901"] mod_shift[of 1900 100 y] by (simp add: algebra_simps)
  have c: "(y + 1 - 1601) div 400 = (y - 1601) div 400 + (if y mod 400 = 0 then 1 else 0)"
    using div_step[of 400 "y - 1601"] mod_shift[of 1600 400 y] by (simp add: algebra_simps)
  show ?thesis
    unfolding DayFromYear_def DaysInYear_def a b c
    using mod_100_4[of y] mod_400_100[of y] by auto
qed

lemma DayFromYear_less: "DayFromYear y < DayFromYear (y + 1)"
  unfolding DayFromYear_Suc by (simp add: DaysInYear_def)

text \<open>
  \<open>YearFromTime(t)\<close> is the largest year whose first day is not after \<open>t\<close>. It is found
  from an estimate by stepping down to a year that starts in time, then up to the last
  such year.
\<close>

function yearDown :: "int \<Rightarrow> int \<Rightarrow> int" where
  "yearDown d y = (if d < DayFromYear y then yearDown d (y - 1) else y)"
  by pat_completeness auto
termination
proof (relation "measure (\<lambda>(d, y). nat (DayFromYear y - d))")
  show "wf (measure (\<lambda>(d, y). nat (DayFromYear y - d)))" by simp
next
  fix d y :: int
  assume "d < DayFromYear y"
  moreover have "DayFromYear (y - 1) < DayFromYear y"
    using DayFromYear_less[of "y - 1"] by simp
  ultimately show "((d, y - 1), (d, y)) \<in> measure (\<lambda>(d, y). nat (DayFromYear y - d))"
    by simp
qed

function yearUp :: "int \<Rightarrow> int \<Rightarrow> int" where
  "yearUp d y = (if DayFromYear (y + 1) \<le> d then yearUp d (y + 1) else y)"
  by pat_completeness auto
termination
proof (relation "measure (\<lambda>(d, y). nat (d - DayFromYear y))")
  show "wf (measure (\<lambda>(d, y). nat (d - DayFromYear y)))" by simp
next
  fix d y :: int
  assume "DayFromYear (y + 1) \<le> d"
  with DayFromYear_less[of y]
  show "((d, y + 1), (d, y)) \<in> measure (\<lambda>(d, y). nat (d - DayFromYear y))"
    by simp
qed

declare yearDown.simps [simp del] yearUp.simps [simp del]

definition YearFromTime :: "int \<Rightarrow> int" where
  "YearFromTime t = (let d = Day t in yearUp d (yearDown d (1970 + d div 365)))"

definition InLeapYear :: "int \<Rightarrow> int" where
  "InLeapYear t = (if DaysInYear (YearFromTime t) = 366 then 1 else 0)"

definition DayWithinYear :: "int \<Rightarrow> int" where
  "DayWithinYear t = Day t - DayFromYear (YearFromTime t)"

definition MonthFromTime :: "int \<Rightarrow> int" where
  "MonthFromTime t =
     (let d = DayWithinYear t; l = InLeapYear t in
      if d < 31 then 0
      else if d < 59 + l then 1
      else if d < 90 + l then 2
      else if d < 120 + l then 3
      else if d < 151 + l then 4
      else if d < 181 + l then 5
      else if d < 212 + l then 6
      else if d < 243 + l then 7
      else if d < 273 + l then 8
      else if d < 304 + l then 9
      else if d < 334 + l then 10
      else 11)"

definition DateFromTime :: "int \<Rightarrow> int" where
  "DateFromTime t =
     (let d = DayWithinYear t; l = InLeapYear t; m = MonthFromTime t in
      if m = 0 then d + 1
      else if m = 1 then d - 30
      else if m = 2 then d - 58 - l
      else if m = 3 then d - 89 - l
      else if m = 4 then d - 119 - l
      else if m = 5 then d - 150 - l
      else if m = 6 then d - 180 - l
      else if m = 7 then d - 211 - l
      else if m = 8 then d - 242 - l
      else if m = 9 then d - 272 - l
      else if m = 10 then d - 303 - l
      else d - 333 - l)"

definition HourFromTime :: "int \<Rightarrow> int" where
  "HourFromTime t = (t div msPerHour) mod 24"

definition MinFromTime :: "int \<Rightarrow> int" where
  "MinFromTime t = (t div msPerMinute) mod 60"

definition SecFromTime :: "int \<Rightarrow> int" where
  "SecFromTime t = (t div msPerSecond) mod 60"

definition msFromTime :: "int \<Rightarrow> int" where
  "msFromTime t = t mod msPerSecond"

definition MakeTime :: "int \<Rightarrow> int \<Rightarrow> int \<Rightarrow> int \<Rightarrow> int" where
  "MakeTime hour m sec ms' = hour * msPerHour + m * msPerMinute + sec * msPerSecond + ms'"

text \<open>
  The number of days before the first of month \<open>mn\<close> (0 to 11) in a year with or without
  a leap day.
\<close>

definition monthStart :: "int \<Rightarrow> int \<Rightarrow> int" where
  "monthStart mn l =
     (if mn = 0 then 0
      else if mn = 1 then 31
      else if mn = 2 then 59 + l
      else if mn = 3 then 90 + l
      else if mn = 4 then 120 + l
      else if mn = 5 then 151 + l
      else if mn = 6 then 181 + l
      else if mn = 7 then 212 + l
      else if mn = 8 then 243 + l
      else if mn = 9 then 273 + l
      else if mn = 10 then 304 + l
      else 334 + l)"

text \<open>
  \<open>MakeDay(year, month, date)\<close>: the day number of the first of the month plus
  \<open>date - 1\<close>; months outside 0 to 11 carry into the year. On integral arguments the
  result is a number, as in the engines: a day outside the Date range is refused by
  \<open>TimeClip\<close> once \<open>MakeDate\<close> has turned it into milliseconds.
\<close>

definition MakeDay :: "int \<Rightarrow> int \<Rightarrow> int \<Rightarrow> int" where
  "MakeDay year month dt =
     (let ym = year + month div 12;
          mn = month mod 12
      in DayFromYear ym + monthStart mn (if DaysInYear ym = 366 then 1 else 0) + dt - 1)"

definition MakeDate :: "int \<Rightarrow> int \<Rightarrow> int" where
  "MakeDate day time = day * msPerDay + time"

definition TimeClip :: "int \<Rightarrow> date" where
  "TimeClip t = (if \<bar>t\<bar> > maxTime then None else Some t)"

definition LocalTime :: "env \<Rightarrow> int \<Rightarrow> int" where
  "LocalTime e t = t + tza e"

definition UTC :: "env \<Rightarrow> int \<Rightarrow> int" where
  "UTC e t = t - tza e"

text \<open>
  The constructors and methods of \<open>Date\<close> that \<open>parseQuickText\<close> calls. A getter of an
  invalid date is \<open>NaN\<close>; a setter leaves an invalid date invalid.
\<close>

definition Date_now :: "env \<Rightarrow> date" where
  "Date_now e = TimeClip (clock e)"

definition Date_copy :: "date \<Rightarrow> date" where
  "Date_copy d = Option.bind d TimeClip"

definition Date_fields :: "env \<Rightarrow> int \<Rightarrow> int \<Rightarrow> int \<Rightarrow> int \<Rightarrow> int \<Rightarrow> int \<Rightarrow> int \<Rightarrow> date" where
  "Date_fields e y m dt h mi sec ms' =
     (let yr = (if 0 \<le> y \<and> y \<le> 99 then 1900 + y else y)
      in TimeClip (UTC e (MakeDate (MakeDay yr m dt) (MakeTime h mi sec ms'))))"

definition getFullYear :: "env \<Rightarrow> date \<Rightarrow> int option" where
  "getFullYear e d = map_option (\<lambda>t. YearFromTime (LocalTime e t)) d"

definition getMonth :: "env \<Rightarrow> date \<Rightarrow> int option" where
  "getMonth e d = map_option (\<lambda>t. MonthFromTime (LocalTime e t)) d"

definition getDate :: "env \<Rightarrow> date \<Rightarrow> int option" where
  "getDate e d = map_option (\<lambda>t. DateFromTime (LocalTime e t)) d"

definition getHours :: "env \<Rightarrow> date \<Rightarrow> int option" where
  "getHours e d = map_option (\<lambda>t. HourFromTime (LocalTime e t)) d"

definition getMinutes :: "env \<Rightarrow> date \<Rightarrow> int option" where
  "getMinutes e d = map_option (\<lambda>t. MinFromTime (LocalTime e t)) d"

definition setSeconds :: "env \<Rightarrow> date \<Rightarrow> int \<Rightarrow> int \<Rightarrow> date" where
  "setSeconds e d sec ms' =
     Option.bind d (\<lambda>t0. let t = LocalTime e t0 in
       TimeClip (UTC e (Day t * msPerDay + MakeTime (HourFromTime t) (MinFromTime t) sec ms')))"

definition setDate :: "env \<Rightarrow> date \<Rightarrow> int \<Rightarrow> date" where
  "setDate e d dt =
     Option.bind d (\<lambda>t0. let t = LocalTime e t0 in
       TimeClip (UTC e (MakeDate (MakeDay (YearFromTime t) (MonthFromTime t) dt) (TimeWithinDay t))))"

definition setHours :: "env \<Rightarrow> date \<Rightarrow> int \<Rightarrow> int \<Rightarrow> int \<Rightarrow> int \<Rightarrow> date" where
  "setHours e d h mi sec ms' =
     Option.bind d (\<lambda>t0. let t = LocalTime e t0 in
       TimeClip (UTC e (Day t * msPerDay + MakeTime h mi sec ms')))"

definition setMinutes :: "env \<Rightarrow> date \<Rightarrow> int \<Rightarrow> date" where
  "setMinutes e d mi =
     Option.bind d (\<lambda>t0. let t = LocalTime e t0 in
       TimeClip (UTC e (Day t * msPerDay + MakeTime (HourFromTime t) mi (SecFromTime t) (msFromTime t))))"

section \<open>parseQuickText\<close>

text \<open>
  The result object: \<open>{ ok: false, message }\<close> is \<open>Inl message\<close>, and
  \<open>{ ok: true, title, start, end, minutes }\<close> is \<open>Inr\<close> of the record. The caller passes
  \<open>String(text || "")\<close> and \<open>Number(defaultMinutes || 60)\<close>; the model takes a string
  and an integral number. The field \<open>end\<close> is \<open>finish\<close> here and the variable \<open>min\<close> is
  \<open>mi\<close>, both names being taken; \<open>hasExplicitDate\<close> is assigned but never read and is
  left out. The body of the function is given in its four parts, in the order of the
  source: duration, day, time of day, title.
\<close>

record parsed =
  title :: string
  start :: date
  finish :: date
  minutes :: int

text \<open>
  The duration: the default when positive, else 60; then the minute pattern, then the
  hour pattern, each assigning \<open>minutes\<close> when it matches.
\<close>

definition quickMinutes :: "string \<Rightarrow> int \<Rightarrow> int" where
  "quickMinutes raw defaultMinutes =
     (let minutes0 = (if defaultMinutes > 0 then defaultMinutes else 60);
          durMinMatch = match rx_durMin raw;
          durHMatch = match rx_durH raw;
          minutes1 = (case durMinMatch of
                        Some m \<Rightarrow> clampInt (Option.bind (grp m 1) parseInt) 5 (12 * 60)
                      | None \<Rightarrow> minutes0)
      in case durHMatch of
           Some m \<Rightarrow> clampInt (map_option (\<lambda>n. n * 60) (Option.bind (grp m 1) parseInt)) 5 (12 * 60)
         | None \<Rightarrow> minutes1)"

text \<open>
  The day: \<open>now\<close> is read from the process clock, \<open>day\<close> is a copy with seconds and
  milliseconds cleared; the keywords are tried on the lower-cased text in the order of
  the source, the numeric date last.
\<close>

definition quickDay :: "env \<Rightarrow> string \<Rightarrow> date" where
  "quickDay e raw =
     (let now = Date_now e;
          day = setSeconds e (Date_copy now) 0 0;
          lower = toLowerCase raw
      in if test rx_uebermorgen lower then
           Option.bind (getDate e day) (\<lambda>d. setDate e day (d + 2))
         else if test rx_morgen lower then
           Option.bind (getDate e day) (\<lambda>d. setDate e day (d + 1))
         else if test rx_heute lower then day
         else
           (case match rx_dm raw of
              None \<Rightarrow> day
            | Some dm \<Rightarrow>
                Option.bind (Option.bind (grp dm 1) parseInt) (\<lambda>dd.
                Option.bind (Option.bind (grp dm 2) parseInt) (\<lambda>mm.
                Option.bind (case grp dm 3 of Some g \<Rightarrow> parseInt g | None \<Rightarrow> getFullYear e now) (\<lambda>y.
                Option.bind (getHours e day) (\<lambda>h.
                Option.bind (getMinutes e day) (\<lambda>mi.
                  Date_fields e (if y < 100 then y + 2000 else y) (mm - 1) dd h mi 0 0)))))))"

text \<open>The time of day \<open>(hh, min)\<close>: 9:00 unless a time or a lone number is found.\<close>

definition quickTime :: "string \<Rightarrow> int \<times> int" where
  "quickTime raw =
     (case match rx_time raw of
        Some timeMatch \<Rightarrow>
          (clampInt (Option.bind (grp timeMatch 1) parseInt) 0 23,
           clampInt (Option.bind (grp timeMatch 2) parseInt) 0 59)
      | None \<Rightarrow>
          (case match rx_hourOnly raw of
             Some hourOnlyMatch \<Rightarrow> (clampInt (Option.bind (grp hourOnlyMatch 1) parseInt) 0 23, 0)
           | None \<Rightarrow> (9, 0)))"

text \<open>
  The title: the six replacements of the source in their order, each followed by
  \<open>trim\<close>, the last also by the collapse of white space; then \<open>Termin\<close> when nothing is
  left (\<open>if (!title) title = "Termin"\<close>).
\<close>

definition stripTokens :: "string \<Rightarrow> string" where
  "stripTokens raw =
     (let t1 = trim (replaceAll rx_titleDay [] raw);
          t2 = trim (replaceAll rx_titleDate [] t1);
          t3 = trim (replaceAll rx_titleTime [] t2);
          t4 = trim (replaceAll rx_titleMin [] t3);
          t5 = trim (replaceAll rx_titleH [] t4)
      in replaceAll rx_spaces '' '' (trim (replaceFirst rx_titleHourOnly '' '' t5)))"

definition quickTitle :: "string \<Rightarrow> string" where
  "quickTitle raw = (let title = stripTokens raw in if title = [] then ''Termin'' else title)"

definition parseQuickText :: "env \<Rightarrow> string \<Rightarrow> int \<Rightarrow> string + parsed" where
  "parseQuickText e input defaultMinutes =
     (let raw = trim input in
      if raw = [] then Inl ''text fehlt''
      else
        let mins = quickMinutes raw defaultMinutes;
            day = quickDay e raw;
            (hh, mi) = quickTime raw;
            start = setHours e (Date_copy day) hh mi 0 0;
            end' = Date_copy start;
            end'' = Option.bind (getMinutes e end') (\<lambda>m. setMinutes e end' (m + mins))
        in Inr \<lparr>title = quickTitle raw, start = start, finish = end'', minutes = mins\<rparr>)"

section \<open>Facts about time values\<close>

lemma time_decompose:
  "t = Day t * msPerDay + HourFromTime t * msPerHour + MinFromTime t * msPerMinute
       + SecFromTime t * msPerSecond + msFromTime t"
proof -
  have d1: "t div 60000 = (t div 1000) div 60"
    using zdiv_zmult2_eq[of 60 t 1000] by simp
  have d2: "t div 3600000 = (t div 60000) div 60"
    using zdiv_zmult2_eq[of 60 t 60000] by simp
  have d3: "t div 86400000 = (t div 3600000) div 24"
    using zdiv_zmult2_eq[of 24 t 3600000] by simp
  have s0: "t = (t div 1000) * 1000 + t mod 1000" by simp
  have s1: "t div 1000 = (t div 60000) * 60 + (t div 1000) mod 60"
    unfolding d1 by simp
  have s2: "t div 60000 = (t div 3600000) * 60 + (t div 60000) mod 60"
    unfolding d2 by simp
  have s3: "t div 3600000 = (t div 86400000) * 24 + (t div 3600000) mod 24"
    unfolding d3 by simp
  show ?thesis
    unfolding Day_def HourFromTime_def MinFromTime_def SecFromTime_def msFromTime_def
      msPerDay_def msPerHour_def msPerMinute_def msPerSecond_def
    using s0 s1 s2 s3 by linarith
qed

lemma setMinutes_add:
  "setMinutes e (Some s) (MinFromTime (LocalTime e s) + m) = TimeClip (s + m * msPerMinute)"
proof -
  let ?t = "LocalTime e s"
  have "Day ?t * msPerDay + MakeTime (HourFromTime ?t) (MinFromTime ?t + m) (SecFromTime ?t) (msFromTime ?t)
        = ?t + m * msPerMinute"
    using time_decompose[of ?t] by (simp add: MakeTime_def algebra_simps)
  then show ?thesis
    by (simp add: setMinutes_def Let_def UTC_def LocalTime_def)
qed

lemma local_fields:
  fixes D :: int
  assumes h: "0 \<le> h" "h < 24" and m: "0 \<le> mi" "mi < 60"
    and t_def: "t = D * msPerDay + MakeTime h mi 0 0"
  shows "Day t = D" and "HourFromTime t = h" and "MinFromTime t = mi"
proof -
  have t: "t = D * 86400000 + h * 3600000 + mi * 60000"
    by (simp add: t_def MakeTime_def msPerDay_def msPerHour_def msPerMinute_def msPerSecond_def)
  have a: "t = 86400000 * D + (h * 3600000 + mi * 60000)" using t by simp
  have b: "t = 3600000 * (24 * D + h) + mi * 60000" using t by simp
  have c: "t = 60000 * (1440 * D + 60 * h + mi) + 0" using t by simp
  have "(86400000 * D + (h * 3600000 + mi * 60000)) div 86400000 = D"
    using h m by (intro conjunct1[OF div_mod_unique]) auto
  then show "Day t = D" by (simp only: Day_def msPerDay_def a)
  have "(3600000 * (24 * D + h) + mi * 60000) div 3600000 = 24 * D + h"
    using h m by (intro conjunct1[OF div_mod_unique]) auto
  moreover have "(24 * D + h) mod 24 = h"
    using h by (intro conjunct2[OF div_mod_unique]) auto
  ultimately show "HourFromTime t = h" by (simp only: HourFromTime_def msPerHour_def b)
  have "(60000 * (1440 * D + 60 * h + mi) + 0) div 60000 = 1440 * D + 60 * h + mi"
    by (intro conjunct1[OF div_mod_unique]) auto
  moreover have "(60 * (24 * D + h) + mi) mod 60 = mi"
    using m by (intro conjunct2[OF div_mod_unique]) auto
  moreover have "1440 * D + 60 * h + mi = 60 * (24 * D + h) + mi" by simp
  ultimately show "MinFromTime t = mi" by (simp only: MinFromTime_def msPerMinute_def c)
qed

section \<open>Facts about the parts of parseQuickText\<close>

lemma clampInt_range: "a \<le> b \<Longrightarrow> a \<le> clampInt n a b \<and> clampInt n a b \<le> b"
  by (cases n) (auto simp: clampInt_def)

lemma quickTime_range:
  "0 \<le> fst (quickTime raw) \<and> fst (quickTime raw) \<le> 23 \<and> 0 \<le> snd (quickTime raw) \<and> snd (quickTime raw) \<le> 59"
  using clampInt_range[of 0 23] clampInt_range[of 0 59]
  by (auto simp: quickTime_def split: option.splits)

lemma quickMinutes_cases:
  "quickMinutes raw d =
     (case match rx_durH raw of
        Some m \<Rightarrow> clampInt (map_option (\<lambda>n. n * 60) (Option.bind (grp m 1) parseInt)) 5 720
      | None \<Rightarrow>
         (case match rx_durMin raw of
            Some m \<Rightarrow> clampInt (Option.bind (grp m 1) parseInt) 5 720
          | None \<Rightarrow> if d > 0 then d else 60))"
  by (simp add: quickMinutes_def Let_def split: option.splits)

lemma quickMinutes_pos: "0 < quickMinutes raw d"
  using clampInt_range[of 5 720]
  by (auto simp: quickMinutes_cases split: option.splits intro: less_le_trans[of 0 5])

lemma quickTitle_nonempty: "quickTitle raw \<noteq> []"
  by (simp add: quickTitle_def Let_def)

lemma parse_ok:
  assumes "trim input \<noteq> []"
  shows "parseQuickText e input d =
     Inr \<lparr>title = quickTitle (trim input),
          start = setHours e (Date_copy (quickDay e (trim input)))
                    (fst (quickTime (trim input))) (snd (quickTime (trim input))) 0 0,
          finish = (let s = setHours e (Date_copy (quickDay e (trim input)))
                    (fst (quickTime (trim input))) (snd (quickTime (trim input))) 0 0
                    in Option.bind (getMinutes e (Date_copy s)) (\<lambda>m. setMinutes e (Date_copy s) (m + quickMinutes (trim input) d))),
          minutes = quickMinutes (trim input) d\<rparr>"
  using assms by (simp add: parseQuickText_def Let_def case_prod_beta)

lemma parse_empty: "trim input = [] \<Longrightarrow> parseQuickText e input d = Inl ''text fehlt''"
  by (simp add: parseQuickText_def)

lemma TimeClip_Some: "TimeClip t = Some s \<longleftrightarrow> s = t \<and> \<bar>t\<bar> \<le> maxTime"
  by (auto simp: TimeClip_def)

lemma setHours_Some:
  "setHours e d h mi sec ms' = Some s \<Longrightarrow> \<bar>s\<bar> \<le> maxTime"
  by (cases d) (auto simp: setHours_def Let_def TimeClip_Some)

lemma Date_copy_valid: "\<bar>s\<bar> \<le> maxTime \<Longrightarrow> Date_copy (Some s) = Some s"
  by (simp add: Date_copy_def TimeClip_def)

lemma finish_of_start:
  assumes "parseQuickText e input d = Inr p" and "start p = Some s"
  shows "finish p = TimeClip (s + minutes p * msPerMinute)"
proof -
  have ne: "trim input \<noteq> []" using assms(1) by (auto simp: parseQuickText_def)
  note p = assms(1)[unfolded parse_ok[OF ne]]
  from p assms(2) have st: "setHours e (Date_copy (quickDay e (trim input)))
                    (fst (quickTime (trim input))) (snd (quickTime (trim input))) 0 0 = Some s"
    by auto
  have v: "Date_copy (Some s) = Some s" using setHours_Some[OF st] by (rule Date_copy_valid)
  from p have "finish p = (let s = setHours e (Date_copy (quickDay e (trim input)))
                    (fst (quickTime (trim input))) (snd (quickTime (trim input))) 0 0
                    in Option.bind (getMinutes e (Date_copy s)) (\<lambda>m. setMinutes e (Date_copy s) (m + quickMinutes (trim input) d)))"
    and m: "minutes p = quickMinutes (trim input) d" by auto
  then have "finish p = setMinutes e (Some s) (MinFromTime (LocalTime e s) + minutes p)"
    by (simp add: st v getMinutes_def m Let_def)
  then show ?thesis by (simp add: setMinutes_add)
qed

section \<open>Facts about the patterns\<close>

lemma take_run:
  assumes "k \<le> length (takeWhile P xs)"
  shows "list_all P (take k xs) \<and> length (take k xs) = k"
proof -
  have "take k xs = take k (takeWhile P xs)"
    using assms by (metis takeWhile_dropWhile_id take_append diff_is_0_eq take_0 append_Nil2)
  moreover have "list_all P (takeWhile P xs)"
    by (simp add: list_all_iff) (meson set_takeWhileD)
  ultimately show ?thesis using assms
    by (auto simp: list_all_iff dest: in_set_takeD)
qed

lemma ms_Seq_iff:
  "(j, cs) \<in> set (ms (Seq a b) s st) \<longleftrightarrow>
     (\<exists>k ck. (k, ck) \<in> set (ms a s st) \<and> (j, cs) \<in> set (ms b s (k, ck)))"
  by auto

lemma ms_Rep_iff:
  "(j, cs) \<in> set (ms (Rep c lo hi) s (i, cs0)) \<longleftrightarrow>
     cs = cs0 \<and> (\<exists>k. j = i + k \<and> lo \<le> k \<and>
                     k \<le> (case hi of None \<Rightarrow> run c s i | Some h \<Rightarrow> min h (run c s i)))"
  by (auto simp: Let_def simp del: upt_Suc)

lemma ms_Group_iff:
  "(j, cs) \<in> set (ms (Group g a) s (i, cs0)) \<longleftrightarrow>
     (\<exists>cs'. cs = (g, take (j - i) (drop i s)) # cs' \<and> (j, cs') \<in> set (ms a s (i, cs0)))"
  by auto

lemma ms_Atom_iff:
  "(j, cs) \<in> set (ms (Atom c) s (i, cs0)) \<longleftrightarrow>
     cs = cs0 \<and> j = Suc i \<and> i < length s \<and> cmatch c (s ! i)"
  by auto

lemma ms_WordB_iff:
  "(j, cs) \<in> set (ms WordB s (i, cs0)) \<longleftrightarrow> cs = cs0 \<and> j = i \<and> boundary s i"
  by auto

lemma ms_Opt_iff:
  "(j, cs) \<in> set (ms (Opt a) s st) \<longleftrightarrow> (j, cs) \<in> set (ms a s st) \<or> (j, cs) = st"
  by auto

lemma ms_Alt_iff:
  "(j, cs) \<in> set (ms (Alt a b) s st) \<longleftrightarrow> (j, cs) \<in> set (ms a s st) \<or> (j, cs) \<in> set (ms b s st)"
  by auto

lemmas ms_iffs = ms_Seq_iff ms_Rep_iff ms_Group_iff ms_Atom_iff ms_WordB_iff ms_Opt_iff ms_Alt_iff

lemma digits_captured:
  assumes "k \<le> run c s i" "0 < k"
  shows "take k (drop i s) \<noteq> [] \<and> length (take k (drop i s)) = k
         \<and> list_all (cmatch c) (take k (drop i s))"
  using take_run[of k "cmatch c" "drop i s"] assms by (auto simp: run_def)

lemma durH_caps:
  assumes "(j, cs) \<in> set (ms rx_durH s (i, []))"
  shows "\<exists>ds. cs = [(1, ds)] \<and> ds \<noteq> [] \<and> length ds \<le> 2 \<and> list_all isDigit ds"
proof -
  from assms obtain k where k: "1 \<le> k" "k \<le> 2" "k \<le> run Digit s i"
    and cs: "cs = [(1, take k (drop i s))]"
    unfolding rx_durH_def lit_i_def by (auto simp: ms_iffs simp del: ms.simps)
  from digits_captured[OF k(3)] k(1,2) cs show ?thesis
    by (auto simp: list_all_iff)
qed


lemma firstMatch_head:
  "firstMatch r s is = Some m \<Longrightarrow> (stop m, groups m) \<in> set (ms r s (index m, []))"
proof (induction "is")
  case Nil
  then show ?case by simp
next
  case (Cons i "is")
  then show ?case by (cases "ms r s (i, [])") (auto split: prod.splits)
qed

lemma match_head:
  "match r s = Some m \<Longrightarrow> (stop m, groups m) \<in> set (ms r s (index m, []))"
  unfolding match_def execFrom_def by (rule firstMatch_head)

lemma digit_not_space_sign:
  "isDigit c \<Longrightarrow> \<not> isSpace c \<and> c \<noteq> CHR ''-'' \<and> c \<noteq> CHR ''+''"
  by (auto simp: isDigit_def isSpace_def code_def)

lemma parseInt_digits:
  assumes "ds \<noteq> []" "list_all isDigit ds"
  shows "parseInt ds = Some (digitsValue ds)"
proof -
  obtain c r where ds: "ds = c # r" using assms(1) by (cases ds) auto
  with assms(2) have c: "isDigit c" by simp
  have tw: "takeWhile isDigit ds = ds" using assms(2) by (simp add: list_all_iff)
  from digit_not_space_sign[OF c] tw show ?thesis
    by (simp add: parseInt_def ds Let_def)
qed

lemma match_durH_digits:
  assumes "match rx_durH raw = Some m"
  shows "\<exists>ds. grp m 1 = Some ds \<and> ds \<noteq> [] \<and> length ds \<le> 2 \<and> list_all isDigit ds"
  using durH_caps[OF match_head[OF assms]] by (auto simp: grp_def)


lemma match_durH_nonempty: "match rx_durH raw = Some m \<Longrightarrow> raw \<noteq> []"
proof
  assume "match rx_durH raw = Some m" "raw = []"
  then have "match rx_durH [] = Some m" by simp
  moreover have "match rx_durH [] = None" by code_simp
  ultimately show False by simp
qed

lemma Date_copy_Some: "Date_copy d = Some t \<Longrightarrow> d = Some t \<and> \<bar>t\<bar> \<le> maxTime"
  by (cases d) (auto simp: Date_copy_def TimeClip_Some)

lemma Hour_Min_range:
  "0 \<le> HourFromTime t \<and> HourFromTime t < 24 \<and> 0 \<le> MinFromTime t \<and> MinFromTime t < 60"
  by (simp add: HourFromTime_def MinFromTime_def)

lemma setHours_fields:
  assumes "setHours e d h mi 0 0 = Some s" and "0 \<le> h" "h < 24" "0 \<le> mi" "mi < 60"
  shows "\<exists>t0. d = Some t0 \<and> Day (LocalTime e s) = Day (LocalTime e t0)"
    and "HourFromTime (LocalTime e s) = h" and "MinFromTime (LocalTime e s) = mi"
proof -
  from assms(1) obtain t0 where d: "d = Some t0"
    and s: "s = UTC e (Day (LocalTime e t0) * msPerDay + MakeTime h mi 0 0)"
    by (cases d) (auto simp: setHours_def Let_def TimeClip_Some)
  have l: "LocalTime e s = Day (LocalTime e t0) * msPerDay + MakeTime h mi 0 0"
    by (simp add: s UTC_def LocalTime_def)
  from local_fields[OF assms(2-5) l] d
  show "\<exists>t0. d = Some t0 \<and> Day (LocalTime e s) = Day (LocalTime e t0)"
    and "HourFromTime (LocalTime e s) = h" and "MinFromTime (LocalTime e s) = mi"
    by auto
qed

lemma setSeconds_fields:
  assumes "setSeconds e d 0 0 = Some s"
  shows "\<exists>t0. d = Some t0 \<and> Day (LocalTime e s) = Day (LocalTime e t0)
           \<and> HourFromTime (LocalTime e s) = HourFromTime (LocalTime e t0)
           \<and> MinFromTime (LocalTime e s) = MinFromTime (LocalTime e t0)"
proof -
  from assms(1) obtain t0 where d: "d = Some t0"
    and s: "s = UTC e (Day (LocalTime e t0) * msPerDay
                 + MakeTime (HourFromTime (LocalTime e t0)) (MinFromTime (LocalTime e t0)) 0 0)"
    by (cases d) (auto simp: setSeconds_def Let_def TimeClip_Some)
  have l: "LocalTime e s = Day (LocalTime e t0) * msPerDay
                 + MakeTime (HourFromTime (LocalTime e t0)) (MinFromTime (LocalTime e t0)) 0 0"
    by (simp add: s UTC_def LocalTime_def)
  have r: "0 \<le> HourFromTime (LocalTime e t0)" "HourFromTime (LocalTime e t0) < 24"
     "0 \<le> MinFromTime (LocalTime e t0)" "MinFromTime (LocalTime e t0) < 60"
    using Hour_Min_range[of "LocalTime e t0"] by auto
  from local_fields[OF r l] d show ?thesis by auto
qed

lemma quickDay_no_token:
  assumes "\<not> test rx_uebermorgen (toLowerCase raw)" "\<not> test rx_morgen (toLowerCase raw)"
    "\<not> test rx_heute (toLowerCase raw)" "match rx_dm raw = None"
  shows "quickDay e raw = setSeconds e (Date_copy (Date_now e)) 0 0"
  using assms by (simp add: quickDay_def Let_def)

lemma quickTime_default:
  "match rx_time raw = None \<Longrightarrow> match rx_hourOnly raw = None \<Longrightarrow> quickTime raw = (9, 0)"
  by (simp add: quickTime_def)

lemma start_fields:
  assumes "parseQuickText e input d = Inr p" and "start p = Some s"
  shows "getHours e (start p) = Some (fst (quickTime (trim input)))"
    and "getMinutes e (start p) = Some (snd (quickTime (trim input)))"
    and "\<exists>t. quickDay e (trim input) = Some t \<and> Day (LocalTime e s) = Day (LocalTime e t)"
proof -
  have ne: "trim input \<noteq> []" using assms(1) by (auto simp: parseQuickText_def)
  note p = assms(1)[unfolded parse_ok[OF ne]]
  from p assms(2) have st: "setHours e (Date_copy (quickDay e (trim input)))
                    (fst (quickTime (trim input))) (snd (quickTime (trim input))) 0 0 = Some s"
    by auto
  have r: "0 \<le> fst (quickTime (trim input))" "fst (quickTime (trim input)) < 24"
     "0 \<le> snd (quickTime (trim input))" "snd (quickTime (trim input)) < 60"
    using quickTime_range[of "trim input"] by auto
  from setHours_fields[OF st r] assms(2)
  show "getHours e (start p) = Some (fst (quickTime (trim input)))"
    and "getMinutes e (start p) = Some (snd (quickTime (trim input)))"
    and "\<exists>t. quickDay e (trim input) = Some t \<and> Day (LocalTime e s) = Day (LocalTime e t)"
    by (auto simp: getHours_def getMinutes_def dest: Date_copy_Some)
qed

lemma reference_day:
  assumes "setSeconds e (Date_copy (Date_now e)) 0 0 = Some t"
  shows "Day (LocalTime e t) = Day (LocalTime e (clock e))"
proof -
  from setSeconds_fields[OF assms] obtain t0 where
    t0: "Date_copy (Date_now e) = Some t0" "Day (LocalTime e t) = Day (LocalTime e t0)" by blast
  from Date_copy_Some[OF t0(1)] have "Date_now e = Some t0" by simp
  then have "t0 = clock e" by (simp add: Date_now_def TimeClip_Some)
  with t0 show ?thesis by simp
qed

lemma Day_bounds: "Day t * msPerDay \<le> t \<and> t < Day t * msPerDay + msPerDay"
proof -
  have "t = Day t * msPerDay + t mod msPerDay" by (simp add: Day_def)
  moreover have "0 \<le> t mod msPerDay" "t mod msPerDay < msPerDay" by (simp_all add: msPerDay_def)
  ultimately show ?thesis by linarith
qed

lemma MakeTime_bounds:
  assumes "0 \<le> h" "h < 24" "0 \<le> mi" "mi < 60"
  shows "0 \<le> MakeTime h mi 0 0 \<and> MakeTime h mi 0 0 < msPerDay"
  using assms by (simp add: MakeTime_def msPerHour_def msPerMinute_def msPerDay_def)

lemma setHours_valid:
  assumes "\<bar>t0\<bar> \<le> maxTime - msPerDay" and "0 \<le> h" "h < 24" "0 \<le> mi" "mi < 60"
  shows "\<exists>s. setHours e (Some t0) h mi 0 0 = Some s \<and> \<bar>s - t0\<bar> < msPerDay"
proof -
  let ?s = "UTC e (Day (LocalTime e t0) * msPerDay + MakeTime h mi 0 0)"
  have "\<bar>?s - t0\<bar> < msPerDay"
    using Day_bounds[of "LocalTime e t0"] MakeTime_bounds[OF assms(2-5)]
    unfolding UTC_def LocalTime_def by linarith
  moreover from this assms(1) have "\<bar>?s\<bar> \<le> maxTime" by linarith
  ultimately show ?thesis by (simp add: setHours_def Let_def TimeClip_def)
qed

lemma floor_minute:
  "Day t * msPerDay + MakeTime (HourFromTime t) (MinFromTime t) 0 0
     = (t div msPerMinute) * msPerMinute"
proof -
  have d2: "t div 3600000 = (t div 60000) div 60"
    using zdiv_zmult2_eq[of 60 t 60000] by simp
  have d3: "t div 86400000 = (t div 3600000) div 24"
    using zdiv_zmult2_eq[of 24 t 3600000] by simp
  have s2: "t div 60000 = (t div 3600000) * 60 + (t div 60000) mod 60"
    unfolding d2 by simp
  have s3: "t div 3600000 = (t div 86400000) * 24 + (t div 3600000) mod 24"
    unfolding d3 by simp
  show ?thesis
    unfolding Day_def HourFromTime_def MinFromTime_def MakeTime_def
      msPerDay_def msPerHour_def msPerMinute_def msPerSecond_def
    using s2 s3 by linarith
qed

lemma floor_minute_bounds:
  "t - msPerMinute < (t div msPerMinute) * msPerMinute \<and> (t div msPerMinute) * msPerMinute \<le> t"
proof -
  have "t = (t div msPerMinute) * msPerMinute + t mod msPerMinute" by simp
  moreover have "0 \<le> t mod msPerMinute" "t mod msPerMinute < msPerMinute"
    by (simp_all add: msPerMinute_def)
  ultimately show ?thesis by linarith
qed

lemma setSeconds_floor:
  "setSeconds e (Some t0) 0 0 = TimeClip ((LocalTime e t0 div msPerMinute) * msPerMinute - tza e)"
  by (simp add: setSeconds_def Let_def floor_minute UTC_def)


lemma clock_update_zone:
  "LocalTime (e\<lparr>clock := c\<rparr>) = LocalTime e" "UTC (e\<lparr>clock := c\<rparr>) = UTC e"
  by (simp_all add: fun_eq_iff LocalTime_def UTC_def)

lemma clock_update_ops:
  "setSeconds (e\<lparr>clock := c\<rparr>) = setSeconds e"
  "setDate (e\<lparr>clock := c\<rparr>) = setDate e"
  "setHours (e\<lparr>clock := c\<rparr>) = setHours e"
  "setMinutes (e\<lparr>clock := c\<rparr>) = setMinutes e"
  "getFullYear (e\<lparr>clock := c\<rparr>) = getFullYear e"
  "getDate (e\<lparr>clock := c\<rparr>) = getDate e"
  "getHours (e\<lparr>clock := c\<rparr>) = getHours e"
  "getMinutes (e\<lparr>clock := c\<rparr>) = getMinutes e"
  "Date_fields (e\<lparr>clock := c\<rparr>) = Date_fields e"
  by (simp_all add: fun_eq_iff setSeconds_def setDate_def setHours_def setMinutes_def
      getFullYear_def getDate_def getHours_def getMinutes_def Date_fields_def clock_update_zone)

lemma Day_of_minute: "Day t = (t div msPerMinute) div 1440"
  using zdiv_zmult2_eq[of 1440 t 60000] by (simp add: Day_def msPerDay_def msPerMinute_def)

lemma same_minute_same_day0:
  assumes "\<bar>c1\<bar> \<le> maxTime" "\<bar>c2\<bar> \<le> maxTime"
    and "(c1 + tza e) div msPerMinute = (c2 + tza e) div msPerMinute"
  shows "setSeconds e (Date_copy (TimeClip c1)) 0 0 = setSeconds e (Date_copy (TimeClip c2)) 0 0"
    and "getFullYear e (TimeClip c1) = getFullYear e (TimeClip c2)"
proof -
  have v: "TimeClip c1 = Some c1" "TimeClip c2 = Some c2"
    using assms(1,2) by (simp_all add: TimeClip_def)
  have cp: "Date_copy (Some c1) = Some c1" "Date_copy (Some c2) = Some c2"
    using assms(1,2) by (simp_all add: Date_copy_valid)
  show "setSeconds e (Date_copy (TimeClip c1)) 0 0 = setSeconds e (Date_copy (TimeClip c2)) 0 0"
    using assms(3) by (simp add: v cp setSeconds_floor LocalTime_def)
  have "Day (LocalTime e c1) = Day (LocalTime e c2)"
    using assms(3) by (simp add: Day_of_minute LocalTime_def)
  then show "getFullYear e (TimeClip c1) = getFullYear e (TimeClip c2)"
    by (simp add: v getFullYear_def YearFromTime_def)
qed

lemma quickDay_clock:
  "quickDay (e\<lparr>clock := c\<rparr>) raw =
     (let now = TimeClip c;
          day = setSeconds e (Date_copy now) 0 0;
          lower = toLowerCase raw
      in if test rx_uebermorgen lower then
           Option.bind (getDate e day) (\<lambda>d. setDate e day (d + 2))
         else if test rx_morgen lower then
           Option.bind (getDate e day) (\<lambda>d. setDate e day (d + 1))
         else if test rx_heute lower then day
         else
           (case match rx_dm raw of
              None \<Rightarrow> day
            | Some dm \<Rightarrow>
                Option.bind (Option.bind (grp dm 1) parseInt) (\<lambda>dd.
                Option.bind (Option.bind (grp dm 2) parseInt) (\<lambda>mm.
                Option.bind (case grp dm 3 of Some g \<Rightarrow> parseInt g | None \<Rightarrow> getFullYear e now) (\<lambda>y.
                Option.bind (getHours e day) (\<lambda>h.
                Option.bind (getMinutes e day) (\<lambda>mi.
                  Date_fields e (if y < 100 then y + 2000 else y) (mm - 1) dd h mi 0 0)))))))"
  unfolding quickDay_def clock_update_ops Date_now_def by simp

section \<open>Facts about the calendar\<close>

lemma DayFromYear_strict_nat: "DayFromYear y < DayFromYear (y + 1 + int n)"
proof (induction n)
  case 0
  then show ?case using DayFromYear_less[of y] by simp
next
  case (Suc n)
  have "DayFromYear (y + 1 + int n) < DayFromYear (y + 1 + int n + 1)"
    by (rule DayFromYear_less)
  with Suc show ?case by (simp add: add.assoc)
qed

lemma DayFromYear_strict:
  assumes "y < z"
  shows "DayFromYear y < DayFromYear z"
proof -
  define n where "n = nat (z - y - 1)"
  have "y + 1 + int n = z" using assms by (simp add: n_def)
  with DayFromYear_strict_nat[of y n] show ?thesis by simp
qed

lemma DayFromYear_mono: "y \<le> z \<Longrightarrow> DayFromYear y \<le> DayFromYear z"
  using DayFromYear_strict[of y z] by (cases "y = z") auto

lemma yearDown_spec: "DayFromYear (yearDown d y) \<le> d"
proof (induction d y rule: yearDown.induct)
  case (1 d y)
  show ?case
  proof (cases "d < DayFromYear y")
    case True
    then have e: "yearDown d y = yearDown d (y - 1)"
      by (subst yearDown.simps) (simp only: if_True)
    from 1[OF True] show ?thesis unfolding e .
  next
    case False
    then have e: "yearDown d y = y"
      by (subst yearDown.simps) (simp only: if_False)
    from False show ?thesis unfolding e by simp
  qed
qed

lemma yearUp_spec:
  "DayFromYear y \<le> d \<Longrightarrow> DayFromYear (yearUp d y) \<le> d \<and> d < DayFromYear (yearUp d y + 1)"
proof (induction d y rule: yearUp.induct)
  case (1 d y)
  show ?case
  proof (cases "DayFromYear (y + 1) \<le> d")
    case True
    then have e: "yearUp d y = yearUp d (y + 1)"
      by (subst yearUp.simps) (simp only: if_True)
    from 1(1)[OF True True] show ?thesis unfolding e .
  next
    case False
    then have e: "yearUp d y = y"
      by (subst yearUp.simps) (simp only: if_False)
    from False 1(2) show ?thesis unfolding e by simp
  qed
qed

lemma YearFromTime_char:
  "DayFromYear (YearFromTime t) \<le> Day t \<and> Day t < DayFromYear (YearFromTime t + 1)"
  unfolding YearFromTime_def Let_def by (rule yearUp_spec) (rule yearDown_spec)

lemma YearFromTime_unique:
  assumes "DayFromYear y \<le> Day t" "Day t < DayFromYear (y + 1)"
  shows "YearFromTime t = y"
proof (rule ccontr)
  assume ne: "YearFromTime t \<noteq> y"
  let ?Y = "YearFromTime t"
  note c = YearFromTime_char[of t]
  show False
  proof (cases "?Y < y")
    case True
    then have "DayFromYear (?Y + 1) \<le> DayFromYear y" by (intro DayFromYear_mono) simp
    with c assms show False by linarith
  next
    case False
    with ne have "y + 1 \<le> ?Y" by simp
    then have "DayFromYear (y + 1) \<le> DayFromYear ?Y" by (rule DayFromYear_mono)
    with c assms show False by linarith
  qed
qed

text \<open>The length of month \<open>mn\<close> (0 to 11) in a year with (\<open>l = 1\<close>) or without a leap day.\<close>

definition daysInMonth :: "int \<Rightarrow> int \<Rightarrow> int" where
  "daysInMonth mn l =
     (if mn = 1 then 28 + l else if mn = 3 \<or> mn = 5 \<or> mn = 8 \<or> mn = 10 then 30 else 31)"

definition leapDay :: "int \<Rightarrow> int" where
  "leapDay y = (if DaysInYear y = 366 then 1 else 0)"

lemma month_cases:
  assumes "0 \<le> (m::int)" "m \<le> 11"
  shows "m = 0 \<or> m = 1 \<or> m = 2 \<or> m = 3 \<or> m = 4 \<or> m = 5 \<or> m = 6 \<or> m = 7 \<or> m = 8 \<or> m = 9
         \<or> m = 10 \<or> m = 11"
  using assms by arith

lemma monthStart_next:
  assumes "0 \<le> m" "m \<le> 10"
  shows "monthStart (m + 1) l = monthStart m l + daysInMonth m l"
proof -
  have "m \<le> 11" using assms by simp
  from month_cases[OF assms(1) this] assms(2) show ?thesis
    by (elim disjE) (simp_all add: monthStart_def daysInMonth_def)
qed

lemma leapDay_range: "0 \<le> leapDay y \<and> leapDay y \<le> 1"
  by (simp add: leapDay_def)

lemma DaysInYear_leapDay: "DaysInYear y = 365 + leapDay y"
  by (simp add: leapDay_def DaysInYear_def)

lemma month_of_offset:
  assumes m: "0 \<le> m" "m \<le> 11" and l: "0 \<le> l" "l \<le> 1"
    and k: "1 \<le> k" "k \<le> daysInMonth m l"
    and dw: "dw = monthStart m l + k - 1"
  shows "0 \<le> dw \<and> dw < 365 + l"
    and "(if dw < 31 then 0
      else if dw < 59 + l then 1
      else if dw < 90 + l then 2
      else if dw < 120 + l then 3
      else if dw < 151 + l then 4
      else if dw < 181 + l then 5
      else if dw < 212 + l then 6
      else if dw < 243 + l then 7
      else if dw < 273 + l then 8
      else if dw < 304 + l then 9
      else if dw < 334 + l then 10
      else 11) = m"
  using month_cases[OF m] l k dw
  by (elim disjE; simp add: monthStart_def daysInMonth_def)+

lemma date_of_offset:
  assumes m: "0 \<le> m" "m \<le> 11" and dw: "dw = monthStart m l + k - 1"
  shows "(if m = 0 then dw + 1
      else if m = 1 then dw - 30
      else if m = 2 then dw - 58 - l
      else if m = 3 then dw - 89 - l
      else if m = 4 then dw - 119 - l
      else if m = 5 then dw - 150 - l
      else if m = 6 then dw - 180 - l
      else if m = 7 then dw - 211 - l
      else if m = 8 then dw - 242 - l
      else if m = 9 then dw - 272 - l
      else if m = 10 then dw - 303 - l
      else dw - 333 - l) = k"
  using month_cases[OF m] dw
  by (elim disjE; simp add: monthStart_def)

lemma civil_of_day:
  assumes m: "0 \<le> m" "m \<le> 11" and k: "1 \<le> k" "k \<le> daysInMonth m (leapDay y)"
    and d: "Day t = DayFromYear y + monthStart m (leapDay y) + k - 1"
  shows "YearFromTime t = y" and "MonthFromTime t = m" and "DateFromTime t = k"
proof -
  let ?l = "leapDay y"
  define dw where "dw = monthStart m ?l + k - 1"
  have l: "0 \<le> ?l" "?l \<le> 1" using leapDay_range[of y] by auto
  note mo = month_of_offset[OF m l k dw_def]
  have "DayFromYear y \<le> Day t" "Day t < DayFromYear (y + 1)"
    using mo(1) d by (simp_all add: DayFromYear_Suc DaysInYear_leapDay dw_def)
  then show y: "YearFromTime t = y" by (rule YearFromTime_unique)
  have dwy: "DayWithinYear t = dw"
    by (simp add: DayWithinYear_def y d dw_def)
  have il: "InLeapYear t = ?l" by (simp add: InLeapYear_def y leapDay_def)
  show mt: "MonthFromTime t = m"
    unfolding MonthFromTime_def dwy il Let_def by (rule mo(2))
  show "DateFromTime t = k"
    unfolding DateFromTime_def mt dwy il Let_def by (rule date_of_offset[OF m dw_def])
qed

lemma match_dm_nonempty: "match rx_dm raw = Some m \<Longrightarrow> raw \<noteq> []"
proof
  assume "match rx_dm raw = Some m" "raw = []"
  then have "match rx_dm [] = Some m" by simp
  moreover have "match rx_dm [] = None" by code_simp
  ultimately show False by simp
qed

lemma monthStart_range:
  assumes "0 \<le> m" "m \<le> 11" "0 \<le> l" "l \<le> 1"
  shows "0 \<le> monthStart m l \<and> monthStart m l \<le> 335"
  using month_cases[OF assms(1,2)] assms(3,4)
  by (elim disjE) (simp_all add: monthStart_def)

lemma daysInMonth_range:
  assumes "0 \<le> l" "l \<le> 1"
  shows "28 \<le> daysInMonth m l \<and> daysInMonth m l \<le> 31"
  using assms by (simp add: daysInMonth_def)

lemma DayFromYear_range:
  assumes "100 \<le> y" "y \<le> 9999"
  shows "- 683003 \<le> DayFromYear y \<and> DayFromYear y \<le> 2932532"
proof -
  have "DayFromYear 100 = - 683003" "DayFromYear 9999 = 2932532"
    by (simp_all add: DayFromYear_def)
  with DayFromYear_mono[OF assms(1)] DayFromYear_mono[OF assms(2)] show ?thesis by simp
qed

section \<open>Facts about the captured digits\<close>

lemma digitsValue_snoc: "digitsValue (ds @ [c]) = 10 * digitsValue ds + (int (code c) - 48)"
  by (simp add: digitsValue_def)

lemma digitsValue_bounds:
  "list_all isDigit ds \<Longrightarrow> 0 \<le> digitsValue ds \<and> digitsValue ds < 10 ^ length ds"
proof (induction ds rule: rev_induct)
  case Nil
  then show ?case by (simp add: digitsValue_def)
next
  case (snoc c ds)
  then have c: "48 \<le> code c" "code c \<le> 57" and ih: "0 \<le> digitsValue ds"
    "digitsValue ds < 10 ^ length ds"
    by (auto simp: isDigit_def)
  from ih(2) have "digitsValue ds + 1 \<le> 10 ^ length ds" by simp
  then have "10 * digitsValue ds + 10 \<le> 10 * 10 ^ length ds" by simp
  with c ih(1) show ?case by (simp add: digitsValue_snoc)
qed

lemma digitsValue_le_99:
  assumes "list_all isDigit ds" "length ds \<le> 2"
  shows "0 \<le> digitsValue ds \<and> digitsValue ds \<le> 99"
proof -
  have "(10::int) ^ length ds \<le> 10 ^ 2" using assms(2) by (intro power_increasing) simp_all
  with digitsValue_bounds[OF assms(1)] show ?thesis by simp
qed

lemma digitsValue_le_9999:
  assumes "list_all isDigit ds" "length ds \<le> 4"
  shows "0 \<le> digitsValue ds \<and> digitsValue ds \<le> 9999"
proof -
  have "(10::int) ^ length ds \<le> 10 ^ 4" using assms(2) by (intro power_increasing) simp_all
  with digitsValue_bounds[OF assms(1)] show ?thesis by simp
qed

text \<open>What the groups of the time, lone-number and date patterns hold.\<close>

lemma ms_Bol_iff:
  "(j, cs) \<in> set (ms Bol s (i, cs0)) \<longleftrightarrow> cs = cs0 \<and> j = i \<and> i = 0"
  by auto

lemma ms_Eol_iff:
  "(j, cs) \<in> set (ms Eol s (i, cs0)) \<longleftrightarrow> cs = cs0 \<and> j = i \<and> i = length s"
  by auto

lemma group_digits:
  assumes "(j, cs) \<in> set (ms (Group g (Rep Digit lo (Some hi))) s (i, cs0))"
  shows "\<exists>ds. cs = (g, ds) # cs0 \<and> lo \<le> length ds \<and> length ds \<le> hi \<and> list_all isDigit ds"
proof -
  from assms obtain k where k: "lo \<le> k" "k \<le> hi" "k \<le> run Digit s i"
    and cs: "cs = (g, take k (drop i s)) # cs0"
    by (auto simp: ms_iffs simp del: ms.simps)
  from digits_captured[OF k(3)] have "length (take k (drop i s)) = k"
    "list_all isDigit (take k (drop i s))"
    using take_run[of k "cmatch Digit" "drop i s"] k(3) by (auto simp: run_def list_all_iff)
  with k cs show ?thesis by auto
qed

lemma ms_same_caps:
  assumes "(j, cs) \<in> set (ms r s (i, cs0))"
    and "r = WordB \<or> r = Bol \<or> r = Eol \<or> (\<exists>c. r = Atom c)"
  shows "cs = cs0"
  using assms by (auto split: if_splits)



lemma dm_caps:
  assumes "(j, cs) \<in> set (ms rx_dm s (i, []))"
  shows "\<exists>ds1 ds2. map_of cs 1 = Some ds1 \<and> map_of cs 2 = Some ds2
           \<and> ds1 \<noteq> [] \<and> length ds1 \<le> 2 \<and> list_all isDigit ds1
           \<and> ds2 \<noteq> [] \<and> length ds2 \<le> 2 \<and> list_all isDigit ds2
           \<and> (case map_of cs 3 of None \<Rightarrow> True
               | Some ys \<Rightarrow> ys \<noteq> [] \<and> length ys \<le> 4 \<and> list_all isDigit ys)"
proof -
  from assms obtain p1 c1 p2 c2 p3 c3 p4 c4 p5 c5 where
    1: "(p1, c1) \<in> set (ms WordB s (i, []))" and
    2: "(p2, c2) \<in> set (ms (Group 1 (Rep Digit 1 (Some 2))) s (p1, c1))" and
    3: "(p3, c3) \<in> set (ms (Atom (Lit CHR ''.'')) s (p2, c2))" and
    4: "(p4, c4) \<in> set (ms (Group 2 (Rep Digit 1 (Some 2))) s (p3, c3))" and
    5: "(p5, c5) \<in> set (ms (Opt (Seq (Atom (Lit CHR ''.'')) (Group 3 (Rep Digit 2 (Some 4))))) s (p4, c4))" and
    6: "(j, cs) \<in> set (ms WordB s (p5, c5))"
    unfolding rx_dm_def seqs.simps ms_Seq_iff by blast
  from ms_same_caps[OF 1] have c1: "c1 = []" by simp
  from group_digits[OF 2] obtain ds1 where d1: "c2 = (1, ds1) # c1" "1 \<le> length ds1"
    "length ds1 \<le> 2" "list_all isDigit ds1" by blast
  from ms_same_caps[OF 3] have c3: "c3 = c2" by simp
  from group_digits[OF 4] obtain ds2 where d2: "c4 = (2, ds2) # c3" "1 \<le> length ds2"
    "length ds2 \<le> 2" "list_all isDigit ds2" by blast
  from ms_same_caps[OF 6] have cs: "cs = c5" by simp
  have c4: "c4 = [(2, ds2), (1, ds1)]" using c1 d1(1) c3 d2(1) by simp
  from 5 have "c5 = c4 \<or> (\<exists>ys. c5 = (3, ys) # c4 \<and> 2 \<le> length ys \<and> length ys \<le> 4
                            \<and> list_all isDigit ys)"
  proof (unfold ms_Opt_iff, elim disjE)
    assume "(p5, c5) \<in> set (ms (Seq (Atom (Lit CHR ''.'')) (Group 3 (Rep Digit 2 (Some 4)))) s (p4, c4))"
    then obtain q cq where
      a: "(q, cq) \<in> set (ms (Atom (Lit CHR ''.'')) s (p4, c4))" and
      b: "(p5, c5) \<in> set (ms (Group 3 (Rep Digit 2 (Some 4))) s (q, cq))"
      unfolding ms_Seq_iff by blast
    from ms_same_caps[OF a] have "cq = c4" by simp
    with group_digits[OF b] show ?thesis by blast
  next
    assume "(p5, c5) = (p4, c4)"
    then show ?thesis by simp
  qed
  with cs c4 d1 d2 show ?thesis by (auto simp: list_all_iff)
qed



lemma match_dm_digits:
  assumes "match rx_dm raw = Some m"
  shows "\<exists>ds1 ds2. grp m 1 = Some ds1 \<and> grp m 2 = Some ds2
           \<and> ds1 \<noteq> [] \<and> length ds1 \<le> 2 \<and> list_all isDigit ds1
           \<and> ds2 \<noteq> [] \<and> length ds2 \<le> 2 \<and> list_all isDigit ds2
           \<and> (case grp m 3 of None \<Rightarrow> True
               | Some ys \<Rightarrow> ys \<noteq> [] \<and> length ys \<le> 4 \<and> list_all isDigit ys)"
  using dm_caps[OF match_head[OF assms]] by (simp add: grp_def)

section \<open>Facts about setDate and the Date constructor\<close>

lemma MonthFromTime_range: "0 \<le> MonthFromTime t \<and> MonthFromTime t \<le> 11"
  by (simp add: MonthFromTime_def Let_def)

text \<open>Every day number is the one of its own year, month and day of the month.\<close>

lemma day_of_fields:
  "Day t = DayFromYear (YearFromTime t) + monthStart (MonthFromTime t) (InLeapYear t)
           + DateFromTime t - 1"
proof -
  define dw where "dw = DayWithinYear t"
  define l where "l = InLeapYear t"
  define m where "m = MonthFromTime t"
  have m: "m = (if dw < 31 then 0
      else if dw < 59 + l then 1
      else if dw < 90 + l then 2
      else if dw < 120 + l then 3
      else if dw < 151 + l then 4
      else if dw < 181 + l then 5
      else if dw < 212 + l then 6
      else if dw < 243 + l then 7
      else if dw < 273 + l then 8
      else if dw < 304 + l then 9
      else if dw < 334 + l then 10
      else 11)"
    by (simp add: m_def MonthFromTime_def Let_def dw_def l_def)
  have mr: "0 \<le> m" "m \<le> 11" using MonthFromTime_range[of t] by (auto simp: m_def)
  have d: "DateFromTime t = (if m = 0 then dw + 1
      else if m = 1 then dw - 30
      else if m = 2 then dw - 58 - l
      else if m = 3 then dw - 89 - l
      else if m = 4 then dw - 119 - l
      else if m = 5 then dw - 150 - l
      else if m = 6 then dw - 180 - l
      else if m = 7 then dw - 211 - l
      else if m = 8 then dw - 242 - l
      else if m = 9 then dw - 272 - l
      else if m = 10 then dw - 303 - l
      else dw - 333 - l)"
    by (simp add: DateFromTime_def Let_def dw_def l_def m_def)
  have "monthStart m l + DateFromTime t - 1 = dw"
    unfolding d using month_cases[OF mr]
    by (elim disjE) (simp_all add: monthStart_def)
  then show ?thesis
    by (simp add: dw_def DayWithinYear_def m_def l_def)
qed

lemma MakeDay_in_year:
  assumes "0 \<le> m" "m \<le> 11"
  shows "MakeDay y m dt = DayFromYear y + monthStart m (leapDay y) + dt - 1"
proof -
  have dm: "m div 12 = 0" "m mod 12 = m" using assms by simp_all
  show ?thesis by (simp add: MakeDay_def Let_def dm leapDay_def)
qed

lemma MakeDay_own_fields:
  "MakeDay (YearFromTime t) (MonthFromTime t) (DateFromTime t + k) = Day t + k"
proof -
  have l: "leapDay (YearFromTime t) = InLeapYear t" by (simp add: leapDay_def InLeapYear_def)
  have "MakeDay (YearFromTime t) (MonthFromTime t) (DateFromTime t + k)
        = DayFromYear (YearFromTime t) + monthStart (MonthFromTime t) (InLeapYear t)
          + (DateFromTime t + k) - 1"
    using MonthFromTime_range[of t] by (simp add: MakeDay_in_year l)
  with day_of_fields[of t] show ?thesis by simp
qed

text \<open>\<open>d.setDate(d.getDate() + k)\<close> moves a date by \<open>k\<close> days.\<close>

lemma setDate_add:
  "setDate e (Some t0) (DateFromTime (LocalTime e t0) + k) = TimeClip (t0 + k * msPerDay)"
proof -
  let ?t = "LocalTime e t0"
  have "?t = Day ?t * msPerDay + TimeWithinDay ?t" by (simp add: Day_def TimeWithinDay_def)
  then have "MakeDate (Day ?t + k) (TimeWithinDay ?t) = ?t + k * msPerDay"
    by (simp add: MakeDate_def algebra_simps)
  then show ?thesis
    by (simp add: setDate_def Let_def MakeDay_own_fields UTC_def LocalTime_def)
qed

section \<open>Clocks of the years 100 to 9999\<close>

text \<open>
  The process clock of a running system shows a local day in the years 100 to 9999, in
  a zone at most a day away from UTC. For such a clock every date that
  \<open>parseQuickText\<close> builds is a valid date.
\<close>

definition plausibleClock :: "env \<Rightarrow> bool" where
  "plausibleClock e \<longleftrightarrow>
     DayFromYear 100 \<le> Day (LocalTime e (clock e))
     \<and> Day (LocalTime e (clock e)) < DayFromYear 10000
     \<and> \<bar>tza e\<bar> \<le> msPerDay"

lemma DayFromYear_values:
  "DayFromYear 99 = - 683368" "DayFromYear 100 = - 683003"
  "DayFromYear 10000 = 2932897" "DayFromYear 10008 = 2935819"
  by (simp_all add: DayFromYear_def)

lemma plausible_year:
  assumes "plausibleClock e"
  shows "100 \<le> YearFromTime (LocalTime e (clock e))"
    and "YearFromTime (LocalTime e (clock e)) \<le> 9999"
proof -
  let ?t = "LocalTime e (clock e)"
  note c = YearFromTime_char[of ?t]
  from assms have a: "DayFromYear 100 \<le> Day ?t" "Day ?t < DayFromYear 10000"
    by (auto simp: plausibleClock_def)
  show "100 \<le> YearFromTime ?t"
  proof (rule ccontr)
    assume "\<not> 100 \<le> YearFromTime ?t"
    then have "YearFromTime ?t + 1 \<le> 100" by simp
    from DayFromYear_mono[OF this] c a show False by linarith
  qed
  show "YearFromTime ?t \<le> 9999"
  proof (rule ccontr)
    assume "\<not> YearFromTime ?t \<le> 9999"
    then have "10000 \<le> YearFromTime ?t" by simp
    from DayFromYear_mono[OF this] c a show False by linarith
  qed
qed

lemma plausible_clock_range:
  assumes "plausibleClock e"
  shows "\<bar>clock e\<bar> \<le> maxTime - 5 * msPerDay"
proof -
  let ?t = "LocalTime e (clock e)"
  define D where "D = Day ?t"
  from assms have a: "- 683003 \<le> D" "D < 2932897" and z: "\<bar>tza e\<bar> \<le> msPerDay"
    by (auto simp: plausibleClock_def DayFromYear_values D_def)
  have "D * msPerDay \<le> ?t" "?t < D * msPerDay + msPerDay"
    using Day_bounds[of ?t] by (auto simp: D_def)
  with a z show ?thesis
    unfolding LocalTime_def msPerDay_def maxTime_def by linarith
qed

text \<open>\<open>day\<close> after \<open>setSeconds(0, 0)\<close>: the clock reading cut to its minute.\<close>

lemma day0_plausible:
  assumes "plausibleClock e"
  shows "\<exists>T. setSeconds e (Date_copy (Date_now e)) 0 0 = Some T
           \<and> \<bar>T\<bar> \<le> maxTime - 4 * msPerDay
           \<and> Day (LocalTime e T) = Day (LocalTime e (clock e))"
proof -
  note r = plausible_clock_range[OF assms]
  have c: "\<bar>clock e\<bar> \<le> maxTime" using r unfolding msPerDay_def by linarith
  then have n: "Date_copy (Date_now e) = Some (clock e)"
    by (simp add: Date_now_def Date_copy_def TimeClip_def)
  let ?T = "(LocalTime e (clock e) div msPerMinute) * msPerMinute - tza e"
  have "clock e - msPerMinute < ?T \<and> ?T \<le> clock e"
    using floor_minute_bounds[of "LocalTime e (clock e)"] by (simp add: LocalTime_def)
  with r have b: "\<bar>?T\<bar> \<le> maxTime - 4 * msPerDay"
    unfolding msPerDay_def msPerMinute_def by linarith
  then have "\<bar>?T\<bar> \<le> maxTime" unfolding msPerDay_def by linarith
  then have s: "setSeconds e (Date_copy (Date_now e)) 0 0 = Some ?T"
    by (simp add: n setSeconds_floor TimeClip_def)
  from setSeconds_fields[OF s] n have "Day (LocalTime e ?T) = Day (LocalTime e (clock e))"
    by auto
  with s b show ?thesis by blast
qed

lemma MakeDay_range:
  assumes "100 \<le> y" "y \<le> 9999" "- 1 \<le> m" "m \<le> 98" "0 \<le> dt" "dt \<le> 99"
  shows "- 683369 \<le> MakeDay y m dt \<and> MakeDay y m dt \<le> 2936252"
proof -
  define ym where "ym = y + m div 12"
  define mn where "mn = m mod 12"
  define l where "l = (if DaysInYear ym = 366 then 1 else 0 :: int)"
  have "(- 1) div 12 \<le> m div 12" "m div 12 \<le> 98 div (12::int)"
    using assms(3,4) by (intro zdiv_mono1; simp)+
  then have q: "- 1 \<le> m div 12" "m div 12 \<le> 8" by simp_all
  with assms(1,2) have "99 \<le> ym" "ym \<le> 10008" by (simp_all add: ym_def)
  from DayFromYear_mono[OF this(1)] DayFromYear_mono[OF this(2)]
  have d: "- 683368 \<le> DayFromYear ym" "DayFromYear ym \<le> 2935819"
    by (simp_all add: DayFromYear_values)
  have "0 \<le> mn" "mn \<le> 11" by (simp_all add: mn_def)
  moreover have "0 \<le> l" "l \<le> 1" by (simp_all add: l_def)
  ultimately have s: "0 \<le> monthStart mn l \<and> monthStart mn l \<le> 335"
    by (rule monthStart_range)
  have "MakeDay y m dt = DayFromYear ym + monthStart mn l + dt - 1"
    by (simp add: MakeDay_def Let_def ym_def mn_def l_def)
  with d s assms(5,6) show ?thesis by linarith
qed

text \<open>
  \<open>new Date(y, m, dt, h, mi, 0, 0)\<close> for a year from 100 to 9999, a month index from -1
  to 98 and a day from 0 to 99: a valid date on the day that \<open>MakeDay\<close> gives.
\<close>

lemma Date_fields_valid:
  assumes y: "100 \<le> y" "y \<le> 9999" and m: "- 1 \<le> m" "m \<le> 98" and dt: "0 \<le> dt" "dt \<le> 99"
    and h: "0 \<le> h" "h < 24" and mi: "0 \<le> mi" "mi < 60" and z: "\<bar>tza e\<bar> \<le> msPerDay"
  shows "\<exists>D. Date_fields e y m dt h mi 0 0 = Some D \<and> \<bar>D\<bar> \<le> maxTime - msPerDay
          \<and> Day (LocalTime e D) = MakeDay y m dt"
proof -
  define dn where "dn = MakeDay y m dt"
  define tm where "tm = MakeTime h mi 0 0"
  define D where "D = dn * msPerDay + tm - tza e"
  have yr: "(if 0 \<le> y \<and> y \<le> 99 then 1900 + y else y) = y" using y by simp
  have "- 683369 \<le> dn \<and> dn \<le> 2936252"
    using MakeDay_range[OF y m dt] by (simp add: dn_def)
  with MakeTime_bounds[OF h mi] z have b: "\<bar>D\<bar> \<le> maxTime - msPerDay"
    unfolding msPerDay_def maxTime_def D_def tm_def by linarith
  then have c: "\<bar>D\<bar> \<le> maxTime" unfolding msPerDay_def by linarith
  have f: "Date_fields e y m dt h mi 0 0 = Some D"
    unfolding Date_fields_def Let_def yr MakeDate_def
    using c by (simp add: TimeClip_def UTC_def D_def dn_def tm_def)
  have "LocalTime e D = dn * msPerDay + MakeTime h mi 0 0"
    by (simp add: LocalTime_def D_def tm_def)
  from local_fields(1)[OF h mi this] f b show ?thesis by (simp add: dn_def)
qed

section \<open>Facts about the time of day, the day and the start\<close>



text \<open>The day after a day keyword: the clock's minute moved by one or two days.\<close>

lemma day_after_keyword:
  assumes "plausibleClock e" and "k = 1 \<or> k = 2"
  shows "\<exists>T. setSeconds e (Date_copy (Date_now e)) 0 0 = Some T
          \<and> Option.bind (getDate e (Some T)) (\<lambda>d. setDate e (Some T) (d + k))
              = Some (T + k * msPerDay)
          \<and> \<bar>T + k * msPerDay\<bar> \<le> maxTime - msPerDay"
proof -
  from day0_plausible[OF assms(1)] obtain T where
    T: "setSeconds e (Date_copy (Date_now e)) 0 0 = Some T" "\<bar>T\<bar> \<le> maxTime - 4 * msPerDay"
    by blast
  from T(2) assms(2) have b: "\<bar>T + k * msPerDay\<bar> \<le> maxTime - msPerDay"
    unfolding msPerDay_def by auto
  then have "\<bar>T + k * msPerDay\<bar> \<le> maxTime" unfolding msPerDay_def by linarith
  then have "Option.bind (getDate e (Some T)) (\<lambda>d. setDate e (Some T) (d + k))
              = Some (T + k * msPerDay)"
    by (simp add: getDate_def setDate_add TimeClip_def)
  with T(1) b show ?thesis by blast
qed

text \<open>
  The day of a numeric date: the groups are digits, the year is the written one (below
  100 plus 2000) or the clock's, and the day is the one \<open>MakeDay\<close> gives for the month
  index and the day as written.
\<close>

lemma quickDay_date:
  assumes pc: "plausibleClock e"
    and nk: "\<not> test rx_uebermorgen (toLowerCase raw)" "\<not> test rx_morgen (toLowerCase raw)"
            "\<not> test rx_heute (toLowerCase raw)"
    and dm: "match rx_dm raw = Some dm"
  shows "\<exists>ds1 ds2 D. grp dm 1 = Some ds1 \<and> grp dm 2 = Some ds2
          \<and> 0 \<le> digitsValue ds1 \<and> digitsValue ds1 \<le> 99
          \<and> 0 \<le> digitsValue ds2 \<and> digitsValue ds2 \<le> 99
          \<and> quickDay e raw = Some D \<and> \<bar>D\<bar> \<le> maxTime - msPerDay
          \<and> Day (LocalTime e D)
              = MakeDay (let y = (case grp dm 3 of Some g \<Rightarrow> digitsValue g
                                  | None \<Rightarrow> YearFromTime (LocalTime e (clock e)))
                         in if y < 100 then y + 2000 else y)
                        (digitsValue ds2 - 1) (digitsValue ds1)
          \<and> 100 \<le> (let y = (case grp dm 3 of Some g \<Rightarrow> digitsValue g
                                  | None \<Rightarrow> YearFromTime (LocalTime e (clock e)))
                      in if y < 100 then y + 2000 else y)
          \<and> (let y = (case grp dm 3 of Some g \<Rightarrow> digitsValue g
                                  | None \<Rightarrow> YearFromTime (LocalTime e (clock e)))
                      in if y < 100 then y + 2000 else y) \<le> 9999"
proof -
  from match_dm_digits[OF dm] obtain ds1 ds2 where
    g: "grp dm 1 = Some ds1" "grp dm 2 = Some ds2" and
    d1: "ds1 \<noteq> []" "length ds1 \<le> 2" "list_all isDigit ds1" and
    d2: "ds2 \<noteq> []" "length ds2 \<le> 2" "list_all isDigit ds2" and
    g3: "case grp dm 3 of None \<Rightarrow> True
         | Some ys \<Rightarrow> ys \<noteq> [] \<and> length ys \<le> 4 \<and> list_all isDigit ys"
    by blast
  define y0 where "y0 = (case grp dm 3 of Some g \<Rightarrow> digitsValue g
                          | None \<Rightarrow> YearFromTime (LocalTime e (clock e)))"
  define y where "y = (if y0 < 100 then y0 + 2000 else y0)"
  note r1 = digitsValue_le_99[OF d1(3,2)] and r2 = digitsValue_le_99[OF d2(3,2)]
  have c: "\<bar>clock e\<bar> \<le> maxTime"
    using plausible_clock_range[OF pc] unfolding msPerDay_def by linarith
  have now: "Date_now e = Some (clock e)" using c by (simp add: Date_now_def TimeClip_def)
  have yo: "(case grp dm 3 of Some g \<Rightarrow> parseInt g | None \<Rightarrow> getFullYear e (Date_now e)) = Some y0"
    and yr0: "0 \<le> y0" "y0 \<le> 9999"
  proof -
    show "(case grp dm 3 of Some g \<Rightarrow> parseInt g | None \<Rightarrow> getFullYear e (Date_now e)) = Some y0"
      using g3 by (cases "grp dm 3") (simp_all add: y0_def now getFullYear_def parseInt_digits)
    show "0 \<le> y0" "y0 \<le> 9999"
      using g3 plausible_year[OF pc]
      by (cases "grp dm 3"; simp add: y0_def digitsValue_le_9999)+
  qed
  have yr: "100 \<le> y" "y \<le> 9999" using yr0 by (auto simp: y_def)
  from day0_plausible[OF pc] obtain T where
    T: "setSeconds e (Date_copy (Date_now e)) 0 0 = Some T" by blast
  define h where "h = HourFromTime (LocalTime e T)"
  define mi where "mi = MinFromTime (LocalTime e T)"
  have hr: "0 \<le> h" "h < 24" and mr: "0 \<le> mi" "mi < 60"
    using Hour_Min_range[of "LocalTime e T"] by (auto simp: h_def mi_def)
  have qd: "quickDay e raw = Date_fields e y (digitsValue ds2 - 1) (digitsValue ds1) h mi 0 0"
    unfolding quickDay_def Let_def
    using nk dm g yo
    by (simp add: T getHours_def getMinutes_def h_def mi_def y_def
        parseInt_digits[OF d1(1,3)] parseInt_digits[OF d2(1,3)])
  have z: "\<bar>tza e\<bar> \<le> msPerDay" using pc by (simp add: plausibleClock_def)
  have mrange: "- 1 \<le> digitsValue ds2 - 1" "digitsValue ds2 - 1 \<le> 98" using r2 by auto
  have drange: "0 \<le> digitsValue ds1" "digitsValue ds1 \<le> 99" using r1 by auto
  from Date_fields_valid[OF yr mrange drange hr mr z] obtain D where
    D: "quickDay e raw = Some D" "\<bar>D\<bar> \<le> maxTime - msPerDay"
       "Day (LocalTime e D) = MakeDay y (digitsValue ds2 - 1) (digitsValue ds1)"
    unfolding qd by blast
  from g r1 r2 D yr show ?thesis
    unfolding y_def y0_def Let_def by blast
qed

lemma quickDay_valid:
  assumes pc: "plausibleClock e"
  shows "\<exists>D. quickDay e raw = Some D \<and> \<bar>D\<bar> \<le> maxTime - msPerDay"
proof -
  from day0_plausible[OF pc] obtain T where
    T: "setSeconds e (Date_copy (Date_now e)) 0 0 = Some T" "\<bar>T\<bar> \<le> maxTime - 4 * msPerDay"
    by blast
  have Tb: "\<bar>T\<bar> \<le> maxTime - msPerDay" using T(2) unfolding msPerDay_def by linarith
  consider (a) "test rx_uebermorgen (toLowerCase raw)"
    | (b) "\<not> test rx_uebermorgen (toLowerCase raw)" "test rx_morgen (toLowerCase raw)"
    | (c) "\<not> test rx_uebermorgen (toLowerCase raw)" "\<not> test rx_morgen (toLowerCase raw)"
          "test rx_heute (toLowerCase raw) \<or> match rx_dm raw = None"
    | (d) "\<not> test rx_uebermorgen (toLowerCase raw)" "\<not> test rx_morgen (toLowerCase raw)"
          "\<not> test rx_heute (toLowerCase raw)" "match rx_dm raw \<noteq> None"
    by blast
  then show ?thesis
  proof cases
    case a
    from day_after_keyword[OF pc, of 2] T(1) a show ?thesis
      by (auto simp: quickDay_def Let_def)
  next
    case b
    from day_after_keyword[OF pc, of 1] T(1) b show ?thesis
      by (auto simp: quickDay_def Let_def)
  next
    case c
    with T(1) Tb show ?thesis by (auto simp: quickDay_def Let_def)
  next
    case d
    then obtain dm where "match rx_dm raw = Some dm" by auto
    from quickDay_date[OF pc d(1-3) this] show ?thesis by blast
  qed
qed

text \<open>For a clock of the years 100 to 9999 every text that is not empty has a valid start.\<close>

lemma start_plausible:
  assumes pc: "plausibleClock e" and ne: "trim input \<noteq> []"
  shows "\<exists>p s D. parseQuickText e input d = Inr p \<and> start p = Some s
           \<and> quickDay e (trim input) = Some D \<and> Day (LocalTime e s) = Day (LocalTime e D)
           \<and> getHours e (start p) = Some (fst (quickTime (trim input)))
           \<and> getMinutes e (start p) = Some (snd (quickTime (trim input)))"
proof -
  let ?raw = "trim input"
  from quickDay_valid[OF pc] obtain D where
    D: "quickDay e ?raw = Some D" "\<bar>D\<bar> \<le> maxTime - msPerDay" by blast
  have cp: "Date_copy (Some D) = Some D"
    using D(2) by (intro Date_copy_valid) (simp add: msPerDay_def)
  have tr: "0 \<le> fst (quickTime ?raw)" "fst (quickTime ?raw) < 24"
     "0 \<le> snd (quickTime ?raw)" "snd (quickTime ?raw) < 60"
    using quickTime_range[of ?raw] by auto
  from setHours_valid[OF D(2) tr, of e] obtain s where
    s: "setHours e (Some D) (fst (quickTime ?raw)) (snd (quickTime ?raw)) 0 0 = Some s" by blast
  obtain p where p: "parseQuickText e input d = Inr p" using parse_ok[OF ne] by blast
  have st: "start p = Some s"
    using p unfolding parse_ok[OF ne] by (auto simp: D(1) cp s)
  from start_fields[OF p st] D(1) p st show ?thesis by auto
qed

section \<open>The claims\<close>

text \<open>
  The reference environment of the examples: the process clock shows
  1 January 2026, 10:00 local time, in a zone one hour ahead of UTC.
\<close>

definition env2026 :: env where
  "env2026 = \<lparr>clock = 1767258000000, tza = 3600000\<rparr>"

text \<open>
  What a result holds when the parse succeeded: the duration, the title, the start; and
  the local calendar fields of a date: year, month (0 is January), day of the month,
  hours and minutes.
\<close>

definition okMinutes :: "string + parsed \<Rightarrow> int option" where
  "okMinutes r = (case r of Inl _ \<Rightarrow> None | Inr p \<Rightarrow> Some (minutes p))"

definition okTitle :: "string + parsed \<Rightarrow> string option" where
  "okTitle r = (case r of Inl _ \<Rightarrow> None | Inr p \<Rightarrow> Some (title p))"

definition okStart :: "string + parsed \<Rightarrow> date" where
  "okStart r = (case r of Inl _ \<Rightarrow> None | Inr p \<Rightarrow> start p)"

definition localFields ::
  "env \<Rightarrow> date \<Rightarrow> int option \<times> int option \<times> int option \<times> int option \<times> int option" where
  "localFields e d = (getFullYear e d, getMonth e d, getDate e d, getHours e d, getMinutes e d)"

subsection \<open>Evaluating the examples\<close>

lemma okMinutes_parse:
  "trim input \<noteq> [] \<Longrightarrow> okMinutes (parseQuickText e input d) = Some (quickMinutes (trim input) d)"
  by (simp add: parse_ok okMinutes_def)

lemma okTitle_parse:
  "trim input \<noteq> [] \<Longrightarrow> okTitle (parseQuickText e input d) = Some (quickTitle (trim input))"
  by (simp add: parse_ok okTitle_def)

text \<open>The result for a text without a day keyword and without a numeric date.\<close>

lemma parse_no_day_token:
  assumes "trim input = raw" and "raw \<noteq> []"
    and "\<not> test rx_uebermorgen (toLowerCase raw)" "\<not> test rx_morgen (toLowerCase raw)"
        "\<not> test rx_heute (toLowerCase raw)" "match rx_dm raw = None"
    and "quickTime raw = (hh, mi)"
  shows "parseQuickText e input d =
     Inr \<lparr>title = quickTitle raw,
          start = setHours e (Date_copy (setSeconds e (Date_copy (Date_now e)) 0 0)) hh mi 0 0,
          finish = (let s = setHours e (Date_copy (setSeconds e (Date_copy (Date_now e)) 0 0)) hh mi 0 0
                    in Option.bind (getMinutes e (Date_copy s))
                         (\<lambda>m. setMinutes e (Date_copy s) (m + quickMinutes raw d))),
          minutes = quickMinutes raw d\<rparr>"
proof -
  have ne: "trim input \<noteq> []" using assms(1,2) by simp
  show ?thesis
    unfolding parse_ok[OF ne] assms(1) quickDay_no_token[OF assms(3-6)] assms(7) by simp
qed

text \<open>
  The time arithmetic of an example is computed from the defining equations; the
  calendar fields of a local time are read off its day number and time of day.
\<close>

lemmas time_eval = getHours_def getMinutes_def LocalTime_def UTC_def Day_def TimeWithinDay_def
  HourFromTime_def MinFromTime_def SecFromTime_def msFromTime_def MakeTime_def TimeClip_def
  msPerDay_def msPerHour_def msPerMinute_def msPerSecond_def maxTime_def Let_def env2026_def
  Date_now_def Date_copy_def setSeconds_def setHours_def setMinutes_def

lemma fields_of_local:
  assumes m: "0 \<le> m" "m \<le> 11" and k: "1 \<le> k" "k \<le> daysInMonth m (leapDay y)"
    and h: "0 \<le> h" "h < 24" and mi: "0 \<le> mi" "mi < 60"
    and t: "LocalTime e s
              = (DayFromYear y + monthStart m (leapDay y) + k - 1) * msPerDay + MakeTime h mi 0 0"
  shows "localFields e (Some s) = (Some y, Some m, Some k, Some h, Some mi)"
proof -
  note f = local_fields[OF h mi t]
  note c = civil_of_day[OF m k f(1)]
  show ?thesis
    using f c
    by (simp add: localFields_def getFullYear_def getMonth_def getDate_def getHours_def
        getMinutes_def)
qed

lemma fields_1_january_2026:
  assumes "0 \<le> h" "h < 24" "0 \<le> mi" "mi < 60"
  shows "localFields env2026 (Some (1767222000000 + h * 3600000 + mi * 60000))
           = (Some 2026, Some 0, Some 1, Some h, Some mi)"
  using assms
  by (intro fields_of_local)
     (simp_all add: daysInMonth_def leapDay_def DaysInYear_def DayFromYear_def monthStart_def
        LocalTime_def env2026_def msPerDay_def MakeTime_def msPerHour_def msPerMinute_def)

text \<open>The parts of the texts that several examples use.\<close>

lemma example_x:
  "trim ''x'' = ''x''"
  "\<not> test rx_uebermorgen (toLowerCase ''x'')"
  "\<not> test rx_morgen (toLowerCase ''x'')"
  "\<not> test rx_heute (toLowerCase ''x'')"
  "match rx_dm ''x'' = None"
  "quickTime ''x'' = (9, 0)"
  "quickTitle ''x'' = ''x''"
  "match rx_durMin ''x'' = None"
  "match rx_durH ''x'' = None"
  "match rx_time ''x'' = None"
  "match rx_hourOnly ''x'' = None"
  by code_simp+

lemma parse_x:
  "parseQuickText e ''x'' d =
     Inr \<lparr>title = ''x'',
          start = setHours e (Date_copy (setSeconds e (Date_copy (Date_now e)) 0 0)) 9 0 0 0,
          finish = (let s = setHours e (Date_copy (setSeconds e (Date_copy (Date_now e)) 0 0)) 9 0 0 0
                    in Option.bind (getMinutes e (Date_copy s))
                         (\<lambda>m. setMinutes e (Date_copy s) (m + (if d > 0 then d else 60)))),
          minutes = (if d > 0 then d else 60)\<rparr>"
proof -
  have m: "quickMinutes ''x'' d = (if d > 0 then d else 60)"
    by (simp add: quickMinutes_cases example_x)
  show ?thesis
    unfolding parse_no_day_token[OF example_x(1) _ example_x(2-6), simplified] example_x(7) m
    by (rule refl)
qed


lemma plausible_env2026: "plausibleClock env2026"
  by (simp add: plausibleClock_def env2026_def LocalTime_def Day_def msPerDay_def
      DayFromYear_values)

lemma digits_values:
  "digitsValue ''99'' = 99" "digitsValue ''999'' = 999" "digitsValue ''20'' = 20"
  "digitsValue ''31'' = 31" "digitsValue ''02'' = 2" "digitsValue ''2026'' = 2026"
  "digitsValue ''24'' = 24" "digitsValue ''01'' = 1"
  by (simp_all add: digitsValue_def code_def)



text \<open>
  The start of a text with a numeric date and no day keyword, for a clock of the years
  100 to 9999: a valid date on the day that \<open>MakeDay\<close> gives for the resolved year, the
  written month less one and the written day.
\<close>

lemma numeric_date_start:
  assumes pc: "plausibleClock e"
    and nk: "\<not> test rx_uebermorgen (toLowerCase (trim input))"
            "\<not> test rx_morgen (toLowerCase (trim input))"
            "\<not> test rx_heute (toLowerCase (trim input))"
    and dm: "match rx_dm (trim input) = Some dm"
  shows "\<exists>p s ds1 ds2 y0. parseQuickText e input d = Inr p \<and> start p = Some s
          \<and> grp dm 1 = Some ds1 \<and> grp dm 2 = Some ds2
          \<and> y0 = (case grp dm 3 of Some g \<Rightarrow> digitsValue g
                    | None \<Rightarrow> YearFromTime (LocalTime e (clock e)))
          \<and> 100 \<le> (if y0 < 100 then y0 + 2000 else y0)
          \<and> (if y0 < 100 then y0 + 2000 else y0) \<le> 9999
          \<and> Day (LocalTime e s)
              = MakeDay (if y0 < 100 then y0 + 2000 else y0) (digitsValue ds2 - 1) (digitsValue ds1)"
proof -
  have ne: "trim input \<noteq> []" using dm by (rule match_dm_nonempty)
  from quickDay_date[OF pc nk dm] obtain ds1 ds2 D where
    g: "grp dm 1 = Some ds1" "grp dm 2 = Some ds2" and
    D: "quickDay e (trim input) = Some D" and
    dy: "Day (LocalTime e D)
          = MakeDay (let y = (case grp dm 3 of Some g \<Rightarrow> digitsValue g
                                  | None \<Rightarrow> YearFromTime (LocalTime e (clock e)))
                     in if y < 100 then y + 2000 else y)
                    (digitsValue ds2 - 1) (digitsValue ds1)" and
    yr: "100 \<le> (let y = (case grp dm 3 of Some g \<Rightarrow> digitsValue g
                                  | None \<Rightarrow> YearFromTime (LocalTime e (clock e)))
                      in if y < 100 then y + 2000 else y)"
        "(let y = (case grp dm 3 of Some g \<Rightarrow> digitsValue g
                                  | None \<Rightarrow> YearFromTime (LocalTime e (clock e)))
                      in if y < 100 then y + 2000 else y) \<le> 9999"
    by blast
  from start_plausible[OF pc ne, of d] D obtain p s where
    p: "parseQuickText e input d = Inr p" "start p = Some s"
       "Day (LocalTime e s) = Day (LocalTime e D)"
    by auto
  from p g dy yr show ?thesis unfolding Let_def by auto
qed

subsection \<open>C1 to C10\<close>

text \<open>
  C1, as the code has it: when the text holds both a minute token and an hour token, the
  duration comes from the hour token, clamped to 5..720: the second assignment to
  \<open>minutes\<close> overrides the first, wherever the two tokens stand.
\<close>

theorem C1_hour_token_decides:
  assumes "match rx_durMin (trim input) = Some mm" and "match rx_durH (trim input) = Some mh"
  shows "\<exists>p ds. parseQuickText e input d = Inr p \<and> grp mh 1 = Some ds \<and> ds \<noteq> []
           \<and> list_all isDigit ds \<and> minutes p = max 5 (min 720 (digitsValue ds * 60))"
proof -
  from match_durH_digits[OF assms(2)] obtain ds where
    ds: "grp mh 1 = Some ds" "ds \<noteq> []" "list_all isDigit ds" by blast
  have ne: "trim input \<noteq> []" using assms(2) by (rule match_durH_nonempty)
  have "quickMinutes (trim input) d = max 5 (min 720 (digitsValue ds * 60))"
    using ds(1) by (simp add: quickMinutes_cases assms(2) parseInt_digits[OF ds(2,3)] clampInt_def)
  with parse_ok[OF ne, of e d] ds show ?thesis by auto
qed

theorem C1_hour_token_decides_witness:
  "match rx_durMin (trim ''termin 90min 2h'') = Some \<lparr>index = 7, stop = 12, groups = [(1, ''90'')]\<rparr>
   \<and> match rx_durH (trim ''termin 90min 2h'') = Some \<lparr>index = 13, stop = 15, groups = [(1, ''2'')]\<rparr>
   \<and> okMinutes (parseQuickText env2026 ''termin 90min 2h'' 60) = Some (max 5 (min 720 (digitsValue ''2'' * 60)))"
proof -
  have a: "match rx_durMin (trim ''termin 90min 2h'') = Some \<lparr>index = 7, stop = 12, groups = [(1, ''90'')]\<rparr>"
    by code_simp
  have b: "match rx_durH (trim ''termin 90min 2h'') = Some \<lparr>index = 13, stop = 15, groups = [(1, ''2'')]\<rparr>"
    by code_simp
  from C1_hour_token_decides[OF a b, of env2026 60] a b show ?thesis
    by (auto simp: okMinutes_def grp_def)
qed

text \<open>
  C1 as stated fails: \<open>termin 90min 2h\<close> gives 120 minutes, not 90.
\<close>

theorem C1_counterexample:
  "okMinutes (parseQuickText env2026 ''termin 90min 2h'' 60) = Some 120
   \<and> okMinutes (parseQuickText env2026 ''termin 90min 2h'' 60) \<noteq> Some 90"
proof -
  have a: "trim ''termin 90min 2h'' = ''termin 90min 2h''"
    and b: "quickMinutes ''termin 90min 2h'' 60 = 120"
    by code_simp+
  have "trim ''termin 90min 2h'' \<noteq> []" unfolding a by simp
  from okMinutes_parse[OF this, of env2026 60] show ?thesis by (simp add: a b)
qed

text \<open>
  C2, as the code has it: \<open>parseQuickText\<close> takes the text and the default only and
  reads the process clock itself (\<open>new Date()\<close>). Its result is a function of the text,
  the default, the zone offset and that clock reading, and of the reading only up to the
  local minute: two runs whose clock readings are valid and lie in the same local minute
  return the same result.
\<close>

theorem C2_result_depends_on_process_clock_minute:
  assumes "\<bar>c1\<bar> \<le> maxTime" and "\<bar>c2\<bar> \<le> maxTime"
    and "(c1 + tza e) div msPerMinute = (c2 + tza e) div msPerMinute"
  shows "parseQuickText (e\<lparr>clock := c1\<rparr>) input d = parseQuickText (e\<lparr>clock := c2\<rparr>) input d"
proof -
  have qd: "quickDay (e\<lparr>clock := c1\<rparr>) raw = quickDay (e\<lparr>clock := c2\<rparr>) raw" for raw
    unfolding quickDay_clock Let_def
    by (simp only: same_minute_same_day0[OF assms])
  show ?thesis
    unfolding parseQuickText_def clock_update_ops qd by (rule refl)
qed

theorem C2_result_depends_on_process_clock_minute_witness:
  "\<bar>1767258000000::int\<bar> \<le> maxTime \<and> \<bar>1767258059999::int\<bar> \<le> maxTime
   \<and> (1767258000000 + tza env2026) div msPerMinute = (1767258059999 + tza env2026) div msPerMinute
   \<and> parseQuickText (env2026\<lparr>clock := 1767258000000\<rparr>) ''coiffeur morgen 13:00 60min'' 60
     = parseQuickText (env2026\<lparr>clock := 1767258059999\<rparr>) ''coiffeur morgen 13:00 60min'' 60"
proof -
  have a: "\<bar>1767258000000::int\<bar> \<le> maxTime" "\<bar>1767258059999::int\<bar> \<le> maxTime"
    by (simp_all add: maxTime_def)
  have b: "(1767258000000 + tza env2026) div msPerMinute = (1767258059999 + tza env2026) div msPerMinute"
    by (simp add: env2026_def msPerMinute_def)
  from C2_result_depends_on_process_clock_minute[OF a b] a b show ?thesis by simp
qed

text \<open>
  C2 as stated fails: the same text and default, parsed with the process clock one day
  later, give a different start and end. No reference clock is passed by the caller.
\<close>

theorem C2_counterexample:
  "parseQuickText (env2026\<lparr>clock := 1767258000000\<rparr>) ''x'' 60 =
     Inr \<lparr>title = ''x'', start = Some 1767254400000, finish = Some 1767258000000, minutes = 60\<rparr>
   \<and> parseQuickText (env2026\<lparr>clock := 1767258000000 + msPerDay\<rparr>) ''x'' 60 =
     Inr \<lparr>title = ''x'', start = Some 1767340800000, finish = Some 1767344400000, minutes = 60\<rparr>"
  unfolding parse_x by (simp add: time_eval)

text \<open>
  C3 fails on the code at its own example. Without the \<open>u\<close> flag the letter u-umlaut is
  not a word character, so \<open>\b\<close> before it needs a word character in front: at the start
  of the text (or after a blank) the pattern of the day-after-tomorrow keyword does not
  match, the pattern of the tomorrow keyword does not match inside the longer word
  either, and the day stays the day of the clock, 1 January 2026. The keyword is also left
  in the title.
\<close>

theorem C3_uebermorgen_not_recognised:
  "\<not> test rx_uebermorgen (toLowerCase (uebermorgen @ '' 13:00''))
   \<and> \<not> test rx_morgen (toLowerCase (uebermorgen @ '' 13:00''))
   \<and> localFields env2026 (okStart (parseQuickText env2026 (uebermorgen @ '' 13:00'') 60))
       = (Some 2026, Some 0, Some 1, Some 13, Some 0)
   \<and> okTitle (parseQuickText env2026 (uebermorgen @ '' 13:00'') 60) = Some uebermorgen"
proof -
  let ?raw = "uebermorgen @ '' 13:00''"
  have tr: "trim ?raw = ?raw"
    and nk: "\<not> test rx_uebermorgen (toLowerCase ?raw)" "\<not> test rx_morgen (toLowerCase ?raw)"
      "\<not> test rx_heute (toLowerCase ?raw)" "match rx_dm ?raw = None"
    and qt: "quickTime ?raw = (13, 0)"
    and ti: "quickTitle ?raw = uebermorgen"
    by code_simp+
  have ne: "?raw \<noteq> []" by (simp add: uebermorgen_def)
  have st: "okStart (parseQuickText env2026 ?raw 60) = Some 1767268800000"
    unfolding parse_no_day_token[OF tr ne nk qt] by (simp add: okStart_def time_eval)
  have tl: "okTitle (parseQuickText env2026 ?raw 60) = Some uebermorgen"
    unfolding parse_no_day_token[OF tr ne nk qt] by (simp add: okTitle_def ti)
  from fields_1_january_2026[of 13 0] st tl nk(1,2) show ?thesis by simp
qed

text \<open>
  The order of the day keywords and the numeric date is the one C3 names, and after a
  word character the day-after-tomorrow keyword is found.
\<close>

lemma uebermorgen_after_word_character:
  "test rx_uebermorgen (toLowerCase (''x'' @ uebermorgen @ '' 24.1.2026 13:00''))"
  by code_simp

text \<open>
  C4, as the code has it: with a minute or an hour token the duration lies in 5..720;
  with neither it is the caller's default as it is when that is positive, and 60
  otherwise. The default is not clamped.
\<close>

theorem C4_minutes_range:
  assumes "parseQuickText e input d = Inr p"
  shows "(match rx_durMin (trim input) \<noteq> None \<or> match rx_durH (trim input) \<noteq> None
            \<longrightarrow> 5 \<le> minutes p \<and> minutes p \<le> 720)
       \<and> (match rx_durMin (trim input) = None \<and> match rx_durH (trim input) = None
            \<longrightarrow> minutes p = (if d > 0 then d else 60))"
proof -
  have ne: "trim input \<noteq> []" using assms(1) by (auto simp: parseQuickText_def)
  have "minutes p = quickMinutes (trim input) d"
    using assms(1) unfolding parse_ok[OF ne] by auto
  then show ?thesis using clampInt_range[of 5 720]
    by (auto simp: quickMinutes_cases split: option.splits)
qed

theorem C4_minutes_range_witness:
  "(match rx_durMin (trim ''x 999min'') \<noteq> None
      \<and> okMinutes (parseQuickText env2026 ''x 999min'' 60) = Some 720 \<and> (5::int) \<le> 720)
   \<and> (match rx_durMin (trim ''x'') = None \<and> match rx_durH (trim ''x'') = None
      \<and> okMinutes (parseQuickText env2026 ''x'' 45) = Some 45)"
proof -
  have a: "trim ''x 999min'' = ''x 999min''"
    and b: "quickMinutes ''x 999min'' 60 = 720"
    and c: "match rx_durMin (trim ''x 999min'') \<noteq> None"
    by code_simp+
  have ne: "trim ''x 999min'' \<noteq> []" unfolding a by simp
  obtain p where p: "parseQuickText env2026 ''x 999min'' 60 = Inr p"
    using parse_ok[OF ne] by blast
  have m: "okMinutes (parseQuickText env2026 ''x 999min'' 60) = Some 720"
    using okMinutes_parse[OF ne, of env2026 60] by (simp add: a b)
  from C4_minutes_range[OF p] c m p have 1: "(5::int) \<le> 720"
    by (simp add: okMinutes_def)
  have d: "match rx_durMin (trim ''x'') = None \<and> match rx_durH (trim ''x'') = None"
    by (simp add: example_x)
  obtain q where q: "parseQuickText env2026 ''x'' 45 = Inr q"
    unfolding parse_x by blast
  from C4_minutes_range[OF q] d have "minutes q = 45" by simp
  with q have 2: "okMinutes (parseQuickText env2026 ''x'' 45) = Some 45"
    by (simp add: okMinutes_def)
  from c m 1 d 2 show ?thesis by simp
qed

text \<open>
  C4 as stated fails: a default of 1000 minutes with no duration token is returned as
  1000, above 720.
\<close>

theorem C4_counterexample:
  "okMinutes (parseQuickText env2026 ''x'' 1000) = Some 1000"
  unfolding parse_x by (simp add: okMinutes_def)

text \<open>
  C5: the parse fails exactly when the trimmed text is empty, with the message of the
  source. Every other text gives a result. Its title is what the removal of the token
  patterns leaves, and the placeholder \<open>Termin\<close> when that is empty; its duration is
  positive, and without a duration token it is the default when positive and 60
  otherwise. For a clock of the years 100 to 9999 the start is a valid date; without a
  time and without a lone number a valid start is at 09:00; without a day keyword and
  without a numeric date a valid start is on the local day of the clock.
\<close>

theorem C5_error_iff_empty:
  "(trim input = [] \<longrightarrow> parseQuickText e input d = Inl ''text fehlt'')
   \<and> (trim input \<noteq> [] \<longrightarrow>
        (\<exists>p. parseQuickText e input d = Inr p
          \<and> title p = (if stripTokens (trim input) = [] then ''Termin''
                       else stripTokens (trim input))
          \<and> title p \<noteq> [] \<and> 0 < minutes p
          \<and> (match rx_durMin (trim input) = None \<and> match rx_durH (trim input) = None
               \<longrightarrow> minutes p = (if d > 0 then d else 60))
          \<and> (plausibleClock e \<longrightarrow> start p \<noteq> None)
          \<and> (match rx_time (trim input) = None \<and> match rx_hourOnly (trim input) = None
               \<and> start p \<noteq> None
               \<longrightarrow> getHours e (start p) = Some 9 \<and> getMinutes e (start p) = Some 0)
          \<and> (\<not> test rx_uebermorgen (toLowerCase (trim input))
               \<and> \<not> test rx_morgen (toLowerCase (trim input))
               \<and> \<not> test rx_heute (toLowerCase (trim input))
               \<and> match rx_dm (trim input) = None
               \<longrightarrow> (\<forall>s. start p = Some s \<longrightarrow>
                       Day (LocalTime e s) = Day (LocalTime e (clock e))))))"
proof (cases "trim input = []")
  case True
  then show ?thesis by (simp add: parse_empty)
next
  case ne: False
  let ?raw = "trim input"
  obtain p where p: "parseQuickText e input d = Inr p" using parse_ok[OF ne] by blast
  have t: "title p = quickTitle ?raw" and m: "minutes p = quickMinutes ?raw d"
    using p unfolding parse_ok[OF ne] by auto
  have 0: "title p = (if stripTokens ?raw = [] then ''Termin'' else stripTokens ?raw)"
    by (simp add: t quickTitle_def Let_def)
  have 1: "title p \<noteq> []" by (simp add: t quickTitle_nonempty)
  have 2: "0 < minutes p" by (simp add: m quickMinutes_pos)
  have 3: "match rx_durMin ?raw = None \<and> match rx_durH ?raw = None
             \<longrightarrow> minutes p = (if d > 0 then d else 60)"
    by (simp add: m quickMinutes_cases)
  have 4: "match rx_time ?raw = None \<and> match rx_hourOnly ?raw = None \<and> start p \<noteq> None
           \<longrightarrow> getHours e (start p) = Some 9 \<and> getMinutes e (start p) = Some 0"
  proof (intro impI, elim conjE)
    assume a: "match rx_time ?raw = None" "match rx_hourOnly ?raw = None" "start p \<noteq> None"
    then obtain s where s: "start p = Some s" by auto
    from start_fields(1,2)[OF p s] quickTime_default[OF a(1,2)]
    show "getHours e (start p) = Some 9 \<and> getMinutes e (start p) = Some 0" by simp
  qed
  have 5: "\<not> test rx_uebermorgen (toLowerCase ?raw) \<and> \<not> test rx_morgen (toLowerCase ?raw)
           \<and> \<not> test rx_heute (toLowerCase ?raw) \<and> match rx_dm ?raw = None
           \<longrightarrow> (\<forall>s. start p = Some s \<longrightarrow> Day (LocalTime e s) = Day (LocalTime e (clock e)))"
  proof (intro impI allI, elim conjE)
    fix s
    assume a: "\<not> test rx_uebermorgen (toLowerCase ?raw)" "\<not> test rx_morgen (toLowerCase ?raw)"
      "\<not> test rx_heute (toLowerCase ?raw)" "match rx_dm ?raw = None" and s: "start p = Some s"
    from start_fields(3)[OF p s] obtain t where
      t: "quickDay e ?raw = Some t" "Day (LocalTime e s) = Day (LocalTime e t)" by blast
    from t(1) have "setSeconds e (Date_copy (Date_now e)) 0 0 = Some t"
      by (simp add: quickDay_no_token[OF a])
    from reference_day[OF this] t(2)
    show "Day (LocalTime e s) = Day (LocalTime e (clock e))" by simp
  qed
  have 6: "plausibleClock e \<longrightarrow> start p \<noteq> None"
  proof
    assume "plausibleClock e"
    from start_plausible[OF this ne, of d] p show "start p \<noteq> None" by auto
  qed
  from ne p 0 1 2 3 4 5 6 show ?thesis by simp
qed

theorem C5_error_iff_empty_witness:
  "trim ''   '' = [] \<and> parseQuickText env2026 ''   '' 60 = Inl ''text fehlt''
   \<and> trim ''x'' \<noteq> []
   \<and> match rx_durMin (trim ''x'') = None \<and> match rx_durH (trim ''x'') = None
   \<and> match rx_time (trim ''x'') = None \<and> match rx_hourOnly (trim ''x'') = None
   \<and> \<not> test rx_uebermorgen (toLowerCase (trim ''x''))
   \<and> \<not> test rx_morgen (toLowerCase (trim ''x''))
   \<and> \<not> test rx_heute (toLowerCase (trim ''x''))
   \<and> match rx_dm (trim ''x'') = None
   \<and> plausibleClock env2026
   \<and> parseQuickText env2026 ''x'' 0 =
       Inr \<lparr>title = ''x'', start = Some 1767254400000, finish = Some 1767258000000, minutes = 60\<rparr>
   \<and> getHours env2026 (Some 1767254400000) = Some 9
   \<and> getMinutes env2026 (Some 1767254400000) = Some 0
   \<and> Day (LocalTime env2026 1767254400000) = Day (LocalTime env2026 (clock env2026))
   \<and> trim ''heute'' \<noteq> [] \<and> stripTokens (trim ''heute'') = []
   \<and> okTitle (parseQuickText env2026 ''heute'' 60) = Some ''Termin''"
proof -
  have a: "trim ''   '' = []" by code_simp
  have b: "trim ''x'' \<noteq> []" by (simp add: example_x)
  have c: "parseQuickText env2026 ''x'' 0 =
       Inr \<lparr>title = ''x'', start = Some 1767254400000, finish = Some 1767258000000, minutes = 60\<rparr>"
    unfolding parse_x by (simp add: time_eval)
  from C5_error_iff_empty[of "''   ''" env2026 60] a
  have d: "parseQuickText env2026 ''   '' 60 = Inl ''text fehlt''" by blast
  from C5_error_iff_empty[of "''x''" env2026 0] b c
  have f: "getHours env2026 (Some 1767254400000) = Some 9
   \<and> getMinutes env2026 (Some 1767254400000) = Some 0
   \<and> Day (LocalTime env2026 1767254400000) = Day (LocalTime env2026 (clock env2026))"
    by (auto simp: example_x)
  have h: "trim ''heute'' = ''heute''" and s: "stripTokens ''heute'' = []"
    by code_simp+
  have hn: "trim ''heute'' \<noteq> []" unfolding h by simp
  from C5_error_iff_empty[of "''heute''" env2026 60] hn
  have g: "okTitle (parseQuickText env2026 ''heute'' 60) = Some ''Termin''"
    by (auto simp: h s okTitle_def)
  from a b c d f g hn show ?thesis by (simp add: example_x plausible_env2026 h s)
qed

text \<open>
  C6, as the code has it, in a zone with a fixed offset from UTC and for an integral
  default duration (the two conditions under which dates and durations are modelled
  here): whenever the start of a successful result is a valid date, the end is the start
  plus exactly \<open>minutes\<close> minutes, provided that instant is a time value (at most
  \<open>8.64e15\<close> ms from the epoch); otherwise the end is an invalid date. The duration is
  always positive, so a valid end is strictly after the start. Across a daylight-saving
  transition \<open>setMinutes\<close> works on the local clock and the distance differs by the
  shift; a fractional default is returned as it is while \<open>setMinutes\<close> drops the
  fraction.
\<close>

theorem C6_end_is_start_plus_minutes:
  assumes "parseQuickText e input d = Inr p" and "start p = Some s"
  shows "finish p = (if \<bar>s + minutes p * msPerMinute\<bar> \<le> maxTime
                     then Some (s + minutes p * msPerMinute) else None)
         \<and> 0 < minutes p"
proof -
  have ne: "trim input \<noteq> []" using assms(1) by (auto simp: parseQuickText_def)
  have "minutes p = quickMinutes (trim input) d"
    using assms(1) unfolding parse_ok[OF ne] by auto
  then have "0 < minutes p" by (simp add: quickMinutes_pos)
  with finish_of_start[OF assms] show ?thesis by (auto simp: TimeClip_def)
qed

theorem C6_end_is_start_plus_minutes_witness:
  "parseQuickText env2026 ''bio lernen 16:30 90min'' 60 =
     Inr \<lparr>title = ''bio lernen'', start = Some 1767281400000, finish = Some 1767286800000,
          minutes = 90\<rparr>
   \<and> (1767286800000::int) = 1767281400000 + 90 * msPerMinute
   \<and> \<bar>1767281400000 + 90 * msPerMinute\<bar> \<le> maxTime"
proof -
  let ?raw = "''bio lernen 16:30 90min''"
  have tr: "trim ?raw = ?raw"
    and nk: "\<not> test rx_uebermorgen (toLowerCase ?raw)" "\<not> test rx_morgen (toLowerCase ?raw)"
      "\<not> test rx_heute (toLowerCase ?raw)" "match rx_dm ?raw = None"
    and qt: "quickTime ?raw = (16, 30)"
    and ti: "quickTitle ?raw = ''bio lernen''"
    and qm: "quickMinutes ?raw 60 = 90"
    by code_simp+
  have a: "parseQuickText env2026 ?raw 60 =
     Inr \<lparr>title = ''bio lernen'', start = Some 1767281400000, finish = Some 1767286800000,
          minutes = 90\<rparr>"
    unfolding parse_no_day_token[OF tr _ nk qt, simplified] ti qm by (simp add: time_eval)
  have b: "start \<lparr>title = ''bio lernen'', start = Some 1767281400000,
                   finish = Some 1767286800000, minutes = 90\<rparr> = Some 1767281400000"
    by simp
  from C6_end_is_start_plus_minutes[OF a b] a show ?thesis
    by (simp add: msPerMinute_def maxTime_def split: if_splits)
qed

text \<open>
  C6 as stated fails: with no duration token the default is used as it is, and for a
  default of \<open>10^14\<close> minutes the end is an invalid date although the parse succeeds.
\<close>

theorem C6_counterexample:
  "parseQuickText env2026 ''x'' 100000000000000 =
     Inr \<lparr>title = ''x'', start = Some 1767254400000, finish = None,
          minutes = 100000000000000\<rparr>"
  unfolding parse_x by (simp add: time_eval)

text \<open>
  C7 fails on the code: the duration pattern used for the value has no \<open>\b\<close> in front,
  the one used to clean the title has. In \<open>x90min\<close> the token \<open>90min\<close> sets the
  duration to 90 and stays in the title. The all-token example of the claim does give
  the placeholder.
\<close>

theorem C7_duration_token_left_in_title:
  "match rx_durMin (trim ''x90min'') = Some \<lparr>index = 1, stop = 6, groups = [(1, ''90'')]\<rparr>
   \<and> okMinutes (parseQuickText env2026 ''x90min'' 60) = Some 90
   \<and> okTitle (parseQuickText env2026 ''x90min'' 60) = Some ''x90min''
   \<and> okTitle (parseQuickText env2026 ''90min 13:00 morgen'' 60) = Some ''Termin''"
proof -
  have a: "trim ''x90min'' = ''x90min''"
    and b: "match rx_durMin (trim ''x90min'') = Some \<lparr>index = 1, stop = 6, groups = [(1, ''90'')]\<rparr>"
    and c: "quickMinutes ''x90min'' 60 = 90"
    and d: "quickTitle ''x90min'' = ''x90min''"
    and e: "trim ''90min 13:00 morgen'' = ''90min 13:00 morgen''"
    and f: "quickTitle ''90min 13:00 morgen'' = ''Termin''"
    by code_simp+
  have ne: "trim ''x90min'' \<noteq> []" "trim ''90min 13:00 morgen'' \<noteq> []"
    unfolding a e by simp_all
  from okMinutes_parse[OF ne(1), of env2026 60] okTitle_parse[OF ne(1), of env2026 60]
    okTitle_parse[OF ne(2), of env2026 60] b
  show ?thesis by (simp add: a c d e f)
qed

text \<open>
  C8 fails on the code: the lone-number pattern is run on the whole text, not on what the
  duration pattern left over. In \<open>90 min\<close> the number is the duration (90 minutes) and,
  standing between the start of the text and a blank, also the hour, clamped to 23.
\<close>

theorem C8_duration_digits_taken_as_hour:
  "match rx_durMin (trim ''90 min'') = Some \<lparr>index = 0, stop = 6, groups = [(1, ''90'')]\<rparr>
   \<and> match rx_time (trim ''90 min'') = None
   \<and> match rx_hourOnly (trim ''90 min'') = Some \<lparr>index = 0, stop = 3, groups = [(1, ''90'')]\<rparr>
   \<and> okMinutes (parseQuickText env2026 ''90 min'' 60) = Some 90
   \<and> localFields env2026 (okStart (parseQuickText env2026 ''90 min'' 60))
       = (Some 2026, Some 0, Some 1, Some 23, Some 0)"
proof -
  let ?raw = "''90 min''"
  have tr: "trim ?raw = ?raw"
    and nk: "\<not> test rx_uebermorgen (toLowerCase ?raw)" "\<not> test rx_morgen (toLowerCase ?raw)"
      "\<not> test rx_heute (toLowerCase ?raw)" "match rx_dm ?raw = None"
    and qt: "quickTime ?raw = (23, 0)"
    and qm: "quickMinutes ?raw 60 = 90"
    and m1: "match rx_durMin (trim ?raw) = Some \<lparr>index = 0, stop = 6, groups = [(1, ''90'')]\<rparr>"
    and m2: "match rx_time (trim ?raw) = None"
    and m3: "match rx_hourOnly (trim ?raw) = Some \<lparr>index = 0, stop = 3, groups = [(1, ''90'')]\<rparr>"
    by code_simp+
  have ne: "trim ?raw \<noteq> []" unfolding tr by simp
  have mi: "okMinutes (parseQuickText env2026 ?raw 60) = Some 90"
    using okMinutes_parse[OF ne, of env2026 60] by (simp add: tr qm)
  have st: "okStart (parseQuickText env2026 ?raw 60) = Some 1767304800000"
    unfolding parse_no_day_token[OF tr _ nk qt, simplified] by (simp add: okStart_def time_eval)
  from fields_1_january_2026[of 23 0] st mi m1 m2 m3 show ?thesis by simp
qed



text \<open>
  C10, as the code has it: a numeric date without a day keyword gives a successful
  result with a valid start (for a clock of the years 100 to 9999), whatever day and
  month are written. The local day of the start is the day that the Date constructor
  computes from the resolved year, the written month less one and the written day: the
  day counted from the first of the written month, a month outside 1 to 12 carried into
  the year. The resolved year is the written one (a year below 100 plus 2000) or the year
  of the clock. A date of the calendar is kept as written. A day of at most 31 beyond the
  end of its month lands in the following month, on the day that remains after the
  length of the written month is taken off (\<open>getMonth\<close> counts from 0, so the written
  month number is the index of the following month): 31 February 2026 is 3 March 2026.
\<close>

theorem C10_numeric_date_rolls_over:
  assumes pc: "plausibleClock e"
    and nk: "\<not> test rx_uebermorgen (toLowerCase (trim input))"
            "\<not> test rx_morgen (toLowerCase (trim input))"
            "\<not> test rx_heute (toLowerCase (trim input))"
    and dm: "match rx_dm (trim input) = Some dm"
  shows "\<exists>p s ds1 ds2 y0.
           parseQuickText e input d = Inr p \<and> start p = Some s
           \<and> grp dm 1 = Some ds1 \<and> grp dm 2 = Some ds2
           \<and> y0 = (case grp dm 3 of Some g \<Rightarrow> digitsValue g
                     | None \<Rightarrow> YearFromTime (LocalTime e (clock e)))
           \<and> (let dd = digitsValue ds1; mm = digitsValue ds2;
                   y = (if y0 < 100 then y0 + 2000 else y0)
               in Day (LocalTime e s) = MakeDay y (mm - 1) dd
                  \<and> (1 \<le> mm \<and> mm \<le> 12 \<and> 1 \<le> dd \<and> dd \<le> daysInMonth (mm - 1) (leapDay y)
                       \<longrightarrow> getFullYear e (start p) = Some y
                           \<and> getMonth e (start p) = Some (mm - 1)
                           \<and> getDate e (start p) = Some dd)
                  \<and> (1 \<le> mm \<and> mm \<le> 12 \<and> daysInMonth (mm - 1) (leapDay y) < dd \<and> dd \<le> 31
                       \<longrightarrow> getFullYear e (start p) = Some y
                           \<and> getMonth e (start p) = Some mm
                           \<and> getDate e (start p) = Some (dd - daysInMonth (mm - 1) (leapDay y))))"
proof -
  from numeric_date_start[OF pc nk dm, of d] obtain p s ds1 ds2 y0 where
    p: "parseQuickText e input d = Inr p" and s: "start p = Some s" and
    g: "grp dm 1 = Some ds1" "grp dm 2 = Some ds2" and
    y0: "y0 = (case grp dm 3 of Some g \<Rightarrow> digitsValue g
                | None \<Rightarrow> YearFromTime (LocalTime e (clock e)))" and
    dy: "Day (LocalTime e s)
          = MakeDay (if y0 < 100 then y0 + 2000 else y0) (digitsValue ds2 - 1) (digitsValue ds1)"
    by blast
  define dd where "dd = digitsValue ds1"
  define mm where "mm = digitsValue ds2"
  define y where "y = (if y0 < 100 then y0 + 2000 else y0)"
  let ?l = "leapDay y"
  have l: "0 \<le> ?l" "?l \<le> 1" using leapDay_range[of y] by auto
  have day: "Day (LocalTime e s) = MakeDay y (mm - 1) dd"
    using dy by (simp add: dd_def mm_def y_def)
  have kept: "getFullYear e (start p) = Some y \<and> getMonth e (start p) = Some (mm - 1)
              \<and> getDate e (start p) = Some dd"
    if a: "1 \<le> mm" "mm \<le> 12" "1 \<le> dd" "dd \<le> daysInMonth (mm - 1) ?l"
  proof -
    have m1: "0 \<le> mm - 1" "mm - 1 \<le> 11" using a by auto
    have "Day (LocalTime e s) = DayFromYear y + monthStart (mm - 1) ?l + dd - 1"
      by (simp add: day MakeDay_in_year[OF m1])
    from civil_of_day[OF m1 a(3,4) this] s show ?thesis
      by (simp add: getFullYear_def getMonth_def getDate_def)
  qed
  have rolled: "getFullYear e (start p) = Some y \<and> getMonth e (start p) = Some mm
              \<and> getDate e (start p) = Some (dd - daysInMonth (mm - 1) ?l)"
    if a: "1 \<le> mm" "mm \<le> 12" "daysInMonth (mm - 1) ?l < dd" "dd \<le> 31"
  proof -
    have "mm \<noteq> 12" using a(3,4) by (auto simp: daysInMonth_def)
    with a have m1: "0 \<le> mm - 1" "mm - 1 \<le> 11" "mm - 1 \<le> 10" and mr: "0 \<le> mm" "mm \<le> 11"
      by auto
    define k where "k = dd - daysInMonth (mm - 1) ?l"
    have ms: "monthStart mm ?l = monthStart (mm - 1) ?l + daysInMonth (mm - 1) ?l"
      using monthStart_next[OF m1(1,3), of ?l] by simp
    have kr: "1 \<le> k" "k \<le> daysInMonth mm ?l"
      using a(3,4) daysInMonth_range[OF l, of "mm - 1"] daysInMonth_range[OF l, of mm]
      by (auto simp: k_def)
    have "Day (LocalTime e s) = DayFromYear y + monthStart mm ?l + k - 1"
      by (simp add: day MakeDay_in_year[OF m1(1,2)] ms k_def)
    from civil_of_day[OF mr kr this] s show ?thesis
      by (simp add: getFullYear_def getMonth_def getDate_def k_def)
  qed
  from p s g y0 day kept rolled show ?thesis
    unfolding Let_def dd_def mm_def y_def by blast
qed

theorem C10_numeric_date_rolls_over_witness:
  "plausibleClock env2026
   \<and> \<not> test rx_uebermorgen (toLowerCase (trim ''31.02.2026''))
   \<and> \<not> test rx_morgen (toLowerCase (trim ''31.02.2026''))
   \<and> \<not> test rx_heute (toLowerCase (trim ''31.02.2026''))
   \<and> match rx_dm (trim ''31.02.2026'')
       = Some \<lparr>index = 0, stop = 10, groups = [(3, ''2026''), (2, ''02''), (1, ''31'')]\<rparr>
   \<and> daysInMonth (2 - 1) (leapDay 2026) = 28
   \<and> getFullYear env2026 (okStart (parseQuickText env2026 ''31.02.2026'' 60)) = Some 2026
   \<and> getMonth env2026 (okStart (parseQuickText env2026 ''31.02.2026'' 60)) = Some 2
   \<and> getDate env2026 (okStart (parseQuickText env2026 ''31.02.2026'' 60)) = Some 3
   \<and> \<not> test rx_uebermorgen (toLowerCase (trim ''24.01.2026''))
   \<and> \<not> test rx_morgen (toLowerCase (trim ''24.01.2026''))
   \<and> \<not> test rx_heute (toLowerCase (trim ''24.01.2026''))
   \<and> match rx_dm (trim ''24.01.2026'')
       = Some \<lparr>index = 0, stop = 10, groups = [(3, ''2026''), (2, ''01''), (1, ''24'')]\<rparr>
   \<and> daysInMonth (1 - 1) (leapDay 2026) = 31
   \<and> getFullYear env2026 (okStart (parseQuickText env2026 ''24.01.2026'' 60)) = Some 2026
   \<and> getMonth env2026 (okStart (parseQuickText env2026 ''24.01.2026'' 60)) = Some 0
   \<and> getDate env2026 (okStart (parseQuickText env2026 ''24.01.2026'' 60)) = Some 24"
proof -
  let ?dm1 = "\<lparr>index = 0, stop = 10, groups = [(3, ''2026''), (2, ''02''), (1, ''31'')]\<rparr>"
  let ?dm2 = "\<lparr>index = 0, stop = 10, groups = [(3, ''2026''), (2, ''01''), (1, ''24'')]\<rparr>"
  have b1: "\<not> test rx_uebermorgen (toLowerCase (trim ''31.02.2026''))"
    "\<not> test rx_morgen (toLowerCase (trim ''31.02.2026''))"
    "\<not> test rx_heute (toLowerCase (trim ''31.02.2026''))"
    and c1: "match rx_dm (trim ''31.02.2026'') = Some ?dm1"
    and b2: "\<not> test rx_uebermorgen (toLowerCase (trim ''24.01.2026''))"
    "\<not> test rx_morgen (toLowerCase (trim ''24.01.2026''))"
    "\<not> test rx_heute (toLowerCase (trim ''24.01.2026''))"
    and c2: "match rx_dm (trim ''24.01.2026'') = Some ?dm2"
    by code_simp+
  have dim: "daysInMonth (2 - 1) (leapDay 2026) = 28" "daysInMonth (1 - 1) (leapDay 2026) = 31"
    by (simp_all add: daysInMonth_def leapDay_def DaysInYear_def)
  from C10_numeric_date_rolls_over[OF plausible_env2026 b1 c1, of 60] dim
  have r1: "getFullYear env2026 (okStart (parseQuickText env2026 ''31.02.2026'' 60)) = Some 2026
   \<and> getMonth env2026 (okStart (parseQuickText env2026 ''31.02.2026'' 60)) = Some 2
   \<and> getDate env2026 (okStart (parseQuickText env2026 ''31.02.2026'' 60)) = Some 3"
    by (auto simp: okStart_def grp_def digits_values Let_def)
  from C10_numeric_date_rolls_over[OF plausible_env2026 b2 c2, of 60] dim
  have r2: "getFullYear env2026 (okStart (parseQuickText env2026 ''24.01.2026'' 60)) = Some 2026
   \<and> getMonth env2026 (okStart (parseQuickText env2026 ''24.01.2026'' 60)) = Some 0
   \<and> getDate env2026 (okStart (parseQuickText env2026 ''24.01.2026'' 60)) = Some 24"
    by (auto simp: okStart_def grp_def digits_values Let_def)
  from plausible_env2026 b1 c1 b2 c2 dim r1 r2 show ?thesis by simp
qed

text \<open>
  C10 as stated fails: not every date that is no date of the calendar lands in the
  following month. \<open>99.02.2026\<close> is the 99th day counted from 1 February 2026, which is
  10 May 2026.
\<close>

theorem C10_counterexample:
  "getFullYear env2026 (okStart (parseQuickText env2026 ''99.02.2026'' 60)) = Some 2026
   \<and> getMonth env2026 (okStart (parseQuickText env2026 ''99.02.2026'' 60)) = Some 4
   \<and> getDate env2026 (okStart (parseQuickText env2026 ''99.02.2026'' 60)) = Some 10"
proof -
  let ?dm = "\<lparr>index = 0, stop = 10, groups = [(3, ''2026''), (2, ''02''), (1, ''99'')]\<rparr>"
  have b: "\<not> test rx_uebermorgen (toLowerCase (trim ''99.02.2026''))"
    "\<not> test rx_morgen (toLowerCase (trim ''99.02.2026''))"
    "\<not> test rx_heute (toLowerCase (trim ''99.02.2026''))"
    and c: "match rx_dm (trim ''99.02.2026'') = Some ?dm"
    by code_simp+
  from numeric_date_start[OF plausible_env2026 b c, of 60] obtain p s where
    p: "parseQuickText env2026 ''99.02.2026'' 60 = Inr p" "start p = Some s" and
    dy: "Day (LocalTime env2026 s) = MakeDay 2026 1 99"
    by (auto simp: grp_def digits_values)
  have "Day (LocalTime env2026 s) = DayFromYear 2026 + monthStart 4 (leapDay 2026) + 10 - 1"
    unfolding dy
    by (simp add: MakeDay_def Let_def DayFromYear_def DaysInYear_def monthStart_def leapDay_def)
  from civil_of_day[OF _ _ _ _ this] p show ?thesis
    by (simp add: okStart_def getFullYear_def getMonth_def getDate_def daysInMonth_def)
qed

end
